theory Spec2Isabelle
  imports Main
begin

section \<open>Python values used by the error manager\<close>

text \<open>
  The development embeds \<^verbatim>\<open>src/discord/ext/duck/errors/manager.py\<close>. Python strings are
  lists of characters (one list element stands for one code point, which is what
  \<^verbatim>\<open>len\<close> and slicing count), Python integers are \<^typ>\<open>int\<close>. A
  \<^verbatim>\<open>datetime\<close> is the number of microseconds since the epoch and a
  \<^verbatim>\<open>timedelta\<close> a number of microseconds, the resolution of both Python types, so
  that subtraction and comparison of the source are exact integer operations here.
\<close>

type_synonym instant = int
type_synonym timedelta = int

definition seconds :: "int \<Rightarrow> timedelta" where
  "seconds n = n * 1000000"

subsection \<open>\<^verbatim>\<open>str(int)\<close>\<close>

definition digit_char :: "nat \<Rightarrow> char" where
  "digit_char d = ''0123456789'' ! d"

function digits :: "nat \<Rightarrow> string" where
  "digits n = (if n < 10 then [digit_char n] else digits (n div 10) @ [digit_char (n mod 10)])"
  by pat_completeness auto
termination
  by (relation "measure id") auto

declare digits.simps [simp del]

definition str_int :: "int \<Rightarrow> string" where
  "str_int i = (if i < 0 then ''-'' @ digits (nat (- i)) else digits (nat i))"

subsection \<open>\<^verbatim>\<open>str.replace\<close>, \<^verbatim>\<open>str.join\<close>, \<^verbatim>\<open>str.title\<close>, \<^verbatim>\<open>str.format\<close>\<close>

text \<open>
  \<^verbatim>\<open>s.replace(old, new)\<close> replaces the non-overlapping occurrences of \<open>old\<close> from left to
  right. With an empty \<open>old\<close> Python puts \<open>new\<close> before every character and at the end.
\<close>

function py_replace_from :: "string \<Rightarrow> string \<Rightarrow> string \<Rightarrow> string" where
  "py_replace_from old new [] = []"
| "py_replace_from old new (c # cs) =
     (if old \<noteq> [] \<and> take (length old) (c # cs) = old
      then new @ py_replace_from old new (drop (length old) (c # cs))
      else c # py_replace_from old new cs)"
  by pat_completeness auto
termination
  by (relation "measure (\<lambda>(old, new, s). length s)") (auto simp: neq_Nil_conv)

definition py_replace :: "string \<Rightarrow> string \<Rightarrow> string \<Rightarrow> string" where
  "py_replace s old new =
     (if old = [] then new @ concat (map (\<lambda>c. c # new) s) else py_replace_from old new s)"

fun py_join :: "string \<Rightarrow> string list \<Rightarrow> string" where
  "py_join sep [] = []"
| "py_join sep [x] = x"
| "py_join sep (x # y # ys) = x @ sep @ py_join sep (y # ys)"

definition lowers :: string where
  "lowers = ''abcdefghijklmnopqrstuvwxyz''"

definition uppers :: string where
  "uppers = ''ABCDEFGHIJKLMNOPQRSTUVWXYZ''"

definition to_upper :: "char \<Rightarrow> char" where
  "to_upper c = (case map_of (zip lowers uppers) c of Some u \<Rightarrow> u | None \<Rightarrow> c)"

definition to_lower :: "char \<Rightarrow> char" where
  "to_lower c = (case map_of (zip uppers lowers) c of Some l \<Rightarrow> l | None \<Rightarrow> c)"

definition is_cased :: "char \<Rightarrow> bool" where
  "is_cased c = (c \<in> set lowers \<or> c \<in> set uppers)"

text \<open>
  \<^verbatim>\<open>str.title\<close> on ASCII text: a cased character is upper-cased when the character before
  it is not cased, and lower-cased otherwise.
\<close>

fun title_from :: "bool \<Rightarrow> string \<Rightarrow> string" where
  "title_from prev [] = []"
| "title_from prev (c # cs) =
     (if is_cased c then (if prev then to_lower c else to_upper c) # title_from True cs
      else c # title_from False cs)"

definition py_title :: "string \<Rightarrow> string" where
  "py_title s = title_from False s"

text \<open>
  \<^verbatim>\<open>template.format(x)\<close> for a template whose only braces are one \<^verbatim>\<open>{}\<close> field: the
  argument is copied in unchanged.
\<close>

fun format_str :: "string \<Rightarrow> string \<Rightarrow> string" where
  "format_str [] x = []"
| "format_str (c # cs) x =
     (if c = CHR ''{'' \<and> take 1 cs = ''}'' then x @ drop 1 cs else c # format_str cs x)"

text \<open>A Python \<^verbatim>\<open>dict\<close> whose order of keys is observed: assignment to a present key keeps
  its place, a new key goes last.\<close>

fun dict_set :: "'k \<Rightarrow> 'v \<Rightarrow> ('k \<times> 'v) list \<Rightarrow> ('k \<times> 'v) list" where
  "dict_set k v [] = [(k, v)]"
| "dict_set k v ((k', v') # kvs) =
     (if k = k' then (k, v) # kvs else (k', v') # dict_set k v kvs)"

section \<open>Data model\<close>

text \<open>
  An exception object, as far as the manager reads it: the names of the classes in the
  method resolution order of its type (what \<^verbatim>\<open>isinstance\<close> consults), \<^verbatim>\<open>str(error)\<close>,
  the list of strings \<^verbatim>\<open>traceback.format_exception\<close> renders for it, and the
  \<^verbatim>\<open>original\<close> attribute that \<^verbatim>\<open>commands.CommandInvokeError\<close> carries.
\<close>

datatype exn =
  Exn (classes: "string list") (message: string) (format_exception: "string list")
      (original: "exn option")

record command =
  qualified_name :: string
  has_error_handler :: bool

record item =
  item_str :: string
  view_str :: string

text \<open>\<^verbatim>\<open>TracebackData\<close>. Every optional key is read with \<^verbatim>\<open>packet.get\<close> only, which
  returns \<^verbatim>\<open>None\<close> for an absent key and for a key holding \<^verbatim>\<open>None\<close> alike.\<close>

record packet =
  time :: instant
  exception :: exn
  author :: "int option"
  guild :: "int option"
  channel :: "int option"
  command :: "command option"
  item :: "item option"

text \<open>\<^verbatim>\<open>CommandErrorSettings\<close>; the ignored errors are class names.\<close>

record settings =
  hijack :: bool
  ignored_errors :: "string list"
  check_for_local_error_handlers :: bool

definition default_settings :: "bool \<Rightarrow> settings" where
  "default_settings h =
     \<lparr>hijack = h, ignored_errors = [''NotOwner'', ''CommandNotFound''],
      check_for_local_error_handlers = True\<rparr>"

text \<open>What the manager reads of a \<^verbatim>\<open>commands.Context\<close> and of a
  \<^verbatim>\<open>discord.Interaction\<close>.\<close>

record cmd_context =
  ctx_command :: "command option"
  ctx_author_id :: int
  ctx_guild_id :: "int option"
  ctx_channel_id :: int
  ctx_message_created_at :: instant
  ctx_extra_events :: nat
  ctx_cog_has_error_handler :: "bool option"

record interaction =
  int_command :: "command option"
  int_user_id :: int
  int_guild_id :: "int option"
  int_channel_id :: "int option"
  int_message_created_at :: "instant option"

datatype origin = Context cmd_context | Interaction interaction

text \<open>The bot's caches, as \<^verbatim>\<open>get_guild\<close>, \<^verbatim>\<open>get_channel\<close>, \<^verbatim>\<open>get_member\<close> and
  \<^verbatim>\<open>get_user\<close> look them up.\<close>

record channel_info =
  channel_name :: string
  channel_id :: int

record user_info =
  user_str :: string
  user_id :: int

record guild_info =
  guild_name :: string
  guild_id :: int
  guild_channels :: "int \<rightharpoonup> channel_info"
  guild_members :: "int \<rightharpoonup> user_info"

record client_user =
  client_str :: string
  display_name :: string
  display_avatar_url :: string

record bot =
  bot_guilds :: "int \<rightharpoonup> guild_info"
  bot_users :: "int \<rightharpoonup> user_info"
  bot_user :: "client_user option"
  bot_class_name :: string

text \<open>What goes to the webhook.\<close>

record embed =
  embed_title :: "string option"
  embed_timestamp :: "instant option"
  embed_description :: "string option"
  embed_fields :: "(string \<times> string) list"
  embed_author :: "(string \<times> string) option"

record kwargs =
  kw_username :: "string option"
  kw_avatar_url :: "string option"
  kw_content :: string

datatype webhook_message = Send_embed embed kwargs | Send_embeds "embed list" kwargs

datatype log_entry =
    Info_adding string
  | Error_releasing exn
  | Warning_unknown_guild "int option"
  | Debug_waiting timedelta

datatype error = HTTPException | IndexError | AttributeError

text \<open>
  The state: the slots of \<^verbatim>\<open>ErrorManager\<close> (the lock is part of the scheduler below,
  \<^verbatim>\<open>code_blocker\<close> is the constant its constructor sets), and the environment the
  methods act on: the clock \<^verbatim>\<open>discord.utils.utcnow()\<close> reads, the outcomes of the HTTP
  requests still to come (\<open>False\<close>: the request raises; when the list is used up every
  request succeeds), the messages the webhook has accepted with the clock at that moment,
  the log, the replies sent with \<^verbatim>\<open>ctx.send\<close>, and \<^verbatim>\<open>os.getcwd()\<close>.
\<close>

record state =
  bot :: bot
  cooldown :: timedelta
  most_recent :: "instant option"
  errors :: "string \<rightharpoonup> packet list"
  webhook_partial :: bool
  oce_settings :: settings
  now :: instant
  transport :: "bool list"
  sent :: "(instant \<times> webhook_message) list"
  logged :: "log_entry list"
  replies :: "string list"
  cwd :: string

type_synonym result = "(error + unit) \<times> state"

text \<open>\<^verbatim>\<open>ErrorManager.__init__\<close>: \<^verbatim>\<open>Webhook.from_url\<close> gives a partial webhook.\<close>

definition new_manager :: "bot \<Rightarrow> timedelta \<Rightarrow> settings \<Rightarrow> instant \<Rightarrow> string \<Rightarrow> state" where
  "new_manager b cd st clock dir =
     \<lparr>bot = b, cooldown = cd, most_recent = None, errors = Map.empty,
      webhook_partial = True, oce_settings = st, now = clock, transport = [],
      sent = [], logged = [], replies = [], cwd = dir\<rparr>"

definition code_blocker :: string where
  "code_blocker = ''```py\<newline>{}```''"

section \<open>The sink: formatting and transport\<close>

subsection \<open>Transport\<close>

text \<open>One HTTP request: it takes the next outcome of the transport script.\<close>

definition request :: "state \<Rightarrow> bool \<times> state" where
  "request s =
     (case transport s of
        [] \<Rightarrow> (True, s)
      | ok # rest \<Rightarrow> (ok, s\<lparr>transport := rest\<rparr>))"

text \<open>\<^verbatim>\<open>await self.error_webhook.fetch()\<close>, and the assignment of the resolved webhook.\<close>

definition webhook_fetch :: "state \<Rightarrow> result" where
  "webhook_fetch s =
     (case request s of
        (True, s') \<Rightarrow> (Inr (), s'\<lparr>webhook_partial := False\<rparr>)
      | (False, s') \<Rightarrow> (Inl HTTPException, s'))"

text \<open>\<^verbatim>\<open>await webhook.send(...)\<close>.\<close>

definition webhook_send :: "webhook_message \<Rightarrow> state \<Rightarrow> result" where
  "webhook_send m s =
     (case request s of
        (True, s') \<Rightarrow> (Inr (), s'\<lparr>sent := sent s' @ [(now s', m)]\<rparr>)
      | (False, s') \<Rightarrow> (Inl HTTPException, s'))"

text \<open>Sequencing: an exception ends the coroutine and leaves the state as it is then.\<close>

definition and_then :: "result \<Rightarrow> (state \<Rightarrow> result) \<Rightarrow> result" where
  "and_then r f = (case r of (Inl e, s) \<Rightarrow> (Inl e, s) | (Inr u, s) \<Rightarrow> f s)"

definition ensure_webhook :: "state \<Rightarrow> result" where
  "ensure_webhook s = (if webhook_partial s then webhook_fetch s else (Inr (), s))"

subsection \<open>\<^verbatim>\<open>ErrorManager._yield_code_chunks\<close>\<close>

definition cbs :: nat where
  "cbs = length code_blocker - 2"

text \<open>\<^verbatim>\<open>iterable[i : j]\<close> for \<open>0 \<le> i \<le> j\<close>.\<close>

definition slice :: "'a list \<Rightarrow> nat \<Rightarrow> nat \<Rightarrow> 'a list" where
  "slice xs i j = take (j - i) (drop i xs)"

text \<open>The generator's loop \<^verbatim>\<open>for i in range(i, len(iterable), step)\<close>, for a positive
  step.\<close>

function chunks_from :: "nat \<Rightarrow> nat \<Rightarrow> string \<Rightarrow> string list" where
  "chunks_from i step iterable =
     (if i < length iterable \<and> 0 < step
      then format_str code_blocker (slice iterable i (i + step)) # chunks_from (i + step) step iterable
      else [])"
  by pat_completeness auto
termination
  by (relation "measure (\<lambda>(i, step, iterable). length iterable - i)") auto

declare chunks_from.simps [simp del]

definition chunksize :: nat where
  "chunksize = 2000"

definition yield_code_chunks :: "string \<Rightarrow> string list" where
  "yield_code_chunks iterable = chunks_from 0 (chunksize - cbs) iterable"

subsection \<open>The metadata block of \<^verbatim>\<open>release_error\<close>\<close>

text \<open>
  \<^verbatim>\<open>discord.utils.format_dt(dt)\<close> is \<^verbatim>\<open>f"<t:{int(dt.timestamp())}>"\<close>. The timestamp
  of an aware \<^verbatim>\<open>datetime\<close> is the true division of its microseconds since the epoch by
  \<open>10 ^ 6\<close>, a float: the quotient rounded to the nearest number with 53 significant bits,
  ties to the even one. \<^verbatim>\<open>int\<close> then truncates towards zero. For a quotient below
  \<open>2 ^ 52\<close> the significand is the quotient scaled up by a power of two, for a larger one
  the quotient scaled down.
\<close>

definition round_half_even :: "nat \<Rightarrow> nat \<Rightarrow> nat" where
  "round_half_even q d =
     (let m = q div d; r = q mod d
      in if d < 2 * r \<or> (2 * r = d \<and> odd m) then m + 1 else m)"

text \<open>The least \<open>k\<close> from \<open>k\<close> on with \<open>2 ^ 52 \<le> n * 2 ^ k / 10 ^ 6\<close>.\<close>

function scale_up :: "nat \<Rightarrow> nat \<Rightarrow> nat" where
  "scale_up n k =
     (if n = 0 \<or> 2 ^ 52 * 1000000 \<le> n * 2 ^ k then k else scale_up n (Suc k))"
  by pat_completeness auto
termination
proof (relation "measure (\<lambda>(n, k). 2 ^ 52 * 1000000 - n * 2 ^ k)", goal_cases)
  case 1
  show ?case by simp
next
  case (2 n k)
  have "n * 2 ^ Suc k = n * 2 ^ k + n * 2 ^ k" by simp
  moreover have "0 < n * 2 ^ k" using 2 by simp
  moreover have "n * 2 ^ k < 2 ^ 52 * 1000000" using 2 by simp
  ultimately have "2 ^ 52 * 1000000 - n * 2 ^ Suc k < 2 ^ 52 * 1000000 - n * 2 ^ k"
    by linarith
  then show ?case by simp
qed

declare scale_up.simps [simp del]

text \<open>The least \<open>j\<close> from \<open>j\<close> on with \<open>n / 10 ^ 6 < 2 ^ 53 * 2 ^ j\<close>.\<close>

function scale_down :: "nat \<Rightarrow> nat \<Rightarrow> nat" where
  "scale_down n j =
     (if n < 2 ^ 53 * 1000000 * 2 ^ j then j else scale_down n (Suc j))"
  by pat_completeness auto
termination
proof (relation "measure (\<lambda>(n, j). Suc n - 2 ^ 53 * 1000000 * 2 ^ j)", goal_cases)
  case 1
  show ?case by simp
next
  case (2 n j)
  have "(2 ^ 53 * 1000000 * 2 ^ Suc j :: nat) = 2 ^ 53 * 1000000 * 2 ^ j + 2 ^ 53 * 1000000 * 2 ^ j"
    by simp
  moreover have "(0 :: nat) < 2 ^ 53 * 1000000 * 2 ^ j" by simp
  moreover have "2 ^ 53 * 1000000 * 2 ^ j \<le> n" using 2 by simp
  ultimately have "Suc n - 2 ^ 53 * 1000000 * 2 ^ Suc j < Suc n - 2 ^ 53 * 1000000 * 2 ^ j"
    by linarith
  then show ?case by simp
qed

declare scale_down.simps [simp del]

text \<open>\<^verbatim>\<open>int(dt.timestamp())\<close> for a \<^verbatim>\<open>datetime\<close> that is \<open>n\<close> microseconds after the epoch.\<close>

definition unix_seconds :: "nat \<Rightarrow> nat" where
  "unix_seconds n =
     (if n = 0 then 0
      else if n < 2 ^ 52 * 1000000
      then (let k = scale_up n 0 in round_half_even (n * 2 ^ k) 1000000 div 2 ^ k)
      else (let j = scale_down n 0 in round_half_even n (1000000 * 2 ^ j) * 2 ^ j))"

definition format_dt :: "instant \<Rightarrow> string" where
  "format_dt t =
     ''<t:'' @
     str_int (if 0 \<le> t then int (unix_seconds (nat t)) else - int (unix_seconds (nat (- t)))) @
     ''>''"

text \<open>Truthiness of an optional integer and of an optional string.\<close>

definition truthy_int :: "int option \<Rightarrow> bool" where
  "truthy_int x = (case x of None \<Rightarrow> False | Some i \<Rightarrow> i \<noteq> 0)"

definition truthy_str :: "string option \<Rightarrow> bool" where
  "truthy_str x = (case x of None \<Rightarrow> False | Some s \<Rightarrow> s \<noteq> [])"

definition get_guild :: "bot \<Rightarrow> int option \<Rightarrow> guild_info option" where
  "get_guild b gid = (case gid of None \<Rightarrow> None | Some g \<Rightarrow> bot_guilds b g)"

definition user_mention :: "int \<Rightarrow> string" where
  "user_mention uid = ''<@'' @ str_int uid @ ''>''"

definition channel_mention :: "int \<Rightarrow> string" where
  "channel_mention cid = ''<#'' @ str_int cid @ ''>''"

text \<open>Lines 204 to 206: the channel, looked up in the resolved guild.\<close>

definition add_channel :: "guild_info \<Rightarrow> packet \<Rightarrow> (string \<times> string) list \<Rightarrow> (string \<times> string) list" where
  "add_channel g p fmt =
     (case channel p of
        None \<Rightarrow> fmt
      | Some cid \<Rightarrow>
          if cid = 0 then fmt
          else (case guild_channels g cid of
                  None \<Rightarrow> fmt
                | Some c \<Rightarrow>
                    dict_set ''channel''
                      (channel_name c @ '' - '' @ channel_mention (channel_id c) @ '' - ('' @
                       str_int (channel_id c) @ '')'') fmt))"

text \<open>Lines 208 to 213: the author, upgraded to a member of the resolved guild or to a
  user the bot knows.\<close>

definition upgrade_author :: "bot \<Rightarrow> guild_info \<Rightarrow> packet \<Rightarrow> (string \<times> string) list \<Rightarrow> (string \<times> string) list" where
  "upgrade_author b g p fmt =
     (case author p of
        None \<Rightarrow> fmt
      | Some aid \<Rightarrow>
          if aid = 0 then fmt
          else (case (case guild_members g aid of Some m \<Rightarrow> Some m | None \<Rightarrow> bot_users b aid) of
                  None \<Rightarrow> fmt
                | Some u \<Rightarrow>
                    dict_set ''author''
                      (user_str u @ '' - '' @ user_mention (user_id u) @ '' ('' @
                       str_int (user_id u) @ '')'') fmt))"

text \<open>Lines 188 to 219: the dictionary \<^verbatim>\<open>fmt\<close>.\<close>

definition metadata :: "bot \<Rightarrow> packet \<Rightarrow> (string \<times> string) list" where
  "metadata b p =
     (let fmt0 = [(''time'', format_dt (time p))];
          fmt1 = (case author p of
                    None \<Rightarrow> fmt0
                  | Some a \<Rightarrow> if a = 0 then fmt0 else dict_set ''author'' (user_mention a) fmt0);
          fmt2 = (case get_guild b (guild p) of
                    Some g \<Rightarrow>
                      dict_set ''guild'' (guild_name g @ '' ('' @ str_int (guild_id g) @ '')'') fmt1
                  | None \<Rightarrow> fmt1);
          fmt3 = (case get_guild b (guild p) of
                    Some g \<Rightarrow> upgrade_author b g p (add_channel g p fmt2)
                  | None \<Rightarrow> fmt2);
          fmt4 = (case author p of
                    None \<Rightarrow> fmt3
                  | Some a \<Rightarrow>
                      if \<not> truthy_str (map_of fmt3 ''author'') \<and> a \<noteq> 0
                      then dict_set ''author''
                             (''<Unknown User> - <@'' @ str_int a @ ''> ('' @ str_int a @ '')'') fmt3
                      else fmt3)
      in (case command p of
            Some c \<Rightarrow> dict_set ''command'' (qualified_name c) fmt4
          | None \<Rightarrow> fmt4))"

text \<open>Lines 218 to 224: where the error occurred, for the title.\<close>

definition display :: "bot \<Rightarrow> packet \<Rightarrow> string" where
  "display b p =
     (case command p of
        Some c \<Rightarrow> ''in command '' @ [CHR 0x22] @ qualified_name c @ [CHR 0x22]
      | None \<Rightarrow>
          (case item p of
             Some i \<Rightarrow> ''in Item '' @ item_str i @ '' of view '' @ view_str i
           | None \<Rightarrow> ''in no command ('' @ bot_class_name b @ '')''))"

definition metadata_value :: "(string \<times> string) list \<Rightarrow> string" where
  "metadata_value fmt =
     py_join ''\<newline>'' (map (\<lambda>(k, v). ''**'' @ py_title k @ ''**: '' @ v) fmt)"

definition set_bot_author :: "bot \<Rightarrow> embed \<Rightarrow> embed" where
  "set_bot_author b e =
     (case bot_user b of
        Some u \<Rightarrow> e\<lparr>embed_author := Some (client_str u, display_avatar_url u)\<rparr>
      | None \<Rightarrow> e)"

text \<open>Lines 226 to 237: the embed of the first message, before its description is set.\<close>

definition primary_embed :: "bot \<Rightarrow> packet \<Rightarrow> embed" where
  "primary_embed b p =
     set_bot_author b
       \<lparr>embed_title = Some (''An error has occurred in '' @ display b p),
        embed_timestamp = Some (time p), embed_description = None,
        embed_fields = [(''Metadata'', metadata_value (metadata b p))],
        embed_author = None\<rparr>"

text \<open>Lines 232 to 239.\<close>

definition send_kwargs :: "bot \<Rightarrow> kwargs" where
  "send_kwargs b =
     (case bot_user b of
        Some u \<Rightarrow>
          \<lparr>kw_username = Some (display_name u), kw_avatar_url = Some (display_avatar_url u),
           kw_content = ''<@349373972103561218>''\<rparr>
      | None \<Rightarrow>
          \<lparr>kw_username = None, kw_avatar_url = None, kw_content = ''<@349373972103561218>''\<rparr>)"

text \<open>Line 252 to 254: the embed of a further chunk.\<close>

definition chunk_embed :: "bot \<Rightarrow> string \<Rightarrow> embed" where
  "chunk_embed b entry =
     set_bot_author b
       \<lparr>embed_title = None, embed_timestamp = None, embed_description = Some entry,
        embed_fields = [], embed_author = None\<rparr>"

text \<open>Lines 250 to 263: the loop over the remaining chunks, with the list \<^verbatim>\<open>embeds\<close>
  it fills, and the send of what is left when the loop ends.\<close>

fun send_chunks :: "string list \<Rightarrow> embed list \<Rightarrow> state \<Rightarrow> result" where
  "send_chunks [] embeds s =
     (if embeds \<noteq> [] then webhook_send (Send_embeds embeds (send_kwargs (bot s))) s
      else (Inr (), s))"
| "send_chunks (entry # code_chunks) embeds s =
     (let embeds' = embeds @ [chunk_embed (bot s) entry] in
      if length embeds' = 10
      then and_then (webhook_send (Send_embeds embeds' (send_kwargs (bot s))) s)
             (send_chunks code_chunks [])
      else send_chunks code_chunks embeds' s)"

subsection \<open>\<^verbatim>\<open>ErrorManager.release_error\<close>\<close>

text \<open>Lines 196 to 201: the warning for a guild id that resolves to no guild.\<close>

definition warn_unknown_guild :: "packet \<Rightarrow> state \<Rightarrow> state" where
  "warn_unknown_guild p s =
     (case get_guild (bot s) (guild p) of
        Some g \<Rightarrow> s
      | None \<Rightarrow> s\<lparr>logged := logged s @ [Warning_unknown_guild (guild p)]\<rparr>)"

definition release_error :: "string \<Rightarrow> packet \<Rightarrow> state \<Rightarrow> result" where
  "release_error traceback p s =
     and_then (ensure_webhook (s\<lparr>logged := logged s @ [Error_releasing (exception p)]\<rparr>))
       (\<lambda>s1. and_then (ensure_webhook (warn_unknown_guild p s1))
          (\<lambda>s2. case yield_code_chunks traceback of
                   [] \<Rightarrow> (Inl IndexError, s2)
                 | first # code_chunks \<Rightarrow>
                     and_then
                       (webhook_send
                          (Send_embed ((primary_embed (bot s2) p)\<lparr>embed_description := Some first\<rparr>)
                             (send_kwargs (bot s2))) s2)
                       (send_chunks code_chunks [])))"

section \<open>The aggregator and the delivery scheduler\<close>

subsection \<open>\<^verbatim>\<open>ErrorManager.add_error\<close>\<close>

text \<open>Lines 307 to 309: the rendered traceback with the working directory replaced.\<close>

definition traceback_string :: "string \<Rightarrow> exn \<Rightarrow> string" where
  "traceback_string dir error = py_replace (concat (format_exception error)) dir ''CWD''"

text \<open>Line 287: \<^verbatim>\<open>ctx and ctx.message and ctx.message.created_at or utcnow()\<close>. A context
  always has its message, an interaction may have none; a \<^verbatim>\<open>datetime\<close> is never falsy.\<close>

definition packet_time :: "origin option \<Rightarrow> instant \<Rightarrow> instant" where
  "packet_time ctx clock =
     (case ctx of
        None \<Rightarrow> clock
      | Some (Context c) \<Rightarrow> ctx_message_created_at c
      | Some (Interaction i) \<Rightarrow>
          (case int_message_created_at i of Some t \<Rightarrow> t | None \<Rightarrow> clock))"

text \<open>\<^verbatim>\<open>(ctx.guild and ctx.guild.id) or None\<close>, from the id of the guild if there is one.\<close>

definition id_or_none :: "int option \<Rightarrow> int option" where
  "id_or_none g = (case g of None \<Rightarrow> None | Some i \<Rightarrow> if i = 0 then None else Some i)"

text \<open>Lines 286 to 305. For an interaction the dictionary \<^verbatim>\<open>addons\<close> is built and then
  dropped: only the branch of the command context calls \<^verbatim>\<open>packet.update(addons)\<close>.\<close>

definition make_packet :: "exn \<Rightarrow> origin option \<Rightarrow> instant \<Rightarrow> packet" where
  "make_packet error ctx clock =
     (let p = \<lparr>time = packet_time ctx clock, exception = error, author = None, guild = None,
               channel = None, command = None, item = None\<rparr>
      in case ctx of
           Some (Context c) \<Rightarrow>
             p\<lparr>command := ctx_command c, author := Some (ctx_author_id c),
               guild := id_or_none (ctx_guild_id c), channel := Some (ctx_channel_id c)\<rparr>
         | Some (Interaction i) \<Rightarrow> p
         | None \<Rightarrow> p)"

text \<open>Lines 310 to 315: a list that is missing or empty is replaced, another one appended to.\<close>

definition record_packet :: "string \<Rightarrow> packet \<Rightarrow> (string \<rightharpoonup> packet list) \<Rightarrow> (string \<rightharpoonup> packet list)" where
  "record_packet tb p errs =
     (case errs tb of
        Some (q # qs) \<Rightarrow> errs(tb \<mapsto> (q # qs) @ [p])
      | Some [] \<Rightarrow> errs(tb \<mapsto> [p])
      | None \<Rightarrow> errs(tb \<mapsto> [p]))"

text \<open>\<^verbatim>\<open>await asyncio.sleep(delay)\<close>: the clock moves on by the delay; a delay that is zero or
  negative returns at once.\<close>

definition sleep :: "timedelta \<Rightarrow> state \<Rightarrow> state" where
  "sleep delay s = s\<lparr>now := now s + max 0 delay\<rparr>"

text \<open>Lines 322 to 339, the body of \<^verbatim>\<open>async with self._lock\<close>, for a task that holds
  the lock from its first to its last line.\<close>

definition critical_section :: "string \<Rightarrow> packet \<Rightarrow> state \<Rightarrow> result" where
  "critical_section tb p s =
     (case most_recent s of
        None \<Rightarrow> release_error tb p (s\<lparr>most_recent := Some (now s)\<rparr>)
      | Some prev \<Rightarrow>
          (let time_between = time p - prev in
           if time_between > cooldown s
           then release_error tb p (s\<lparr>most_recent := Some (now s)\<rparr>)
           else (let s1 = sleep time_between
                            (s\<lparr>logged := logged s @ [Debug_waiting time_between]\<rparr>)
                 in release_error tb p (s1\<lparr>most_recent := Some (now s1)\<rparr>))))"

text \<open>Lines 284 to 315: what \<^verbatim>\<open>add_error\<close> does before it asks for the lock. The
  parameter \<^verbatim>\<open>item\<close> is accepted and not read.\<close>

definition record_error :: "exn \<Rightarrow> origin option \<Rightarrow> item option \<Rightarrow> state \<Rightarrow> state" where
  "record_error error ctx itm s =
     (let s1 = s\<lparr>logged := logged s @ [Info_adding (message error)]\<rparr>;
          p = make_packet error ctx (now s1);
          tb = traceback_string (cwd s1) error
      in s1\<lparr>errors := record_packet tb p (errors s1)\<rparr>)"

text \<open>\<^verbatim>\<open>add_error\<close>, called while no other task holds or awaits the lock.\<close>

definition add_error :: "exn \<Rightarrow> origin option \<Rightarrow> item option \<Rightarrow> state \<Rightarrow> result" where
  "add_error error ctx itm s =
     critical_section (traceback_string (cwd s) error) (make_packet error ctx (now s))
       (record_error error ctx itm s)"

subsection \<open>\<^verbatim>\<open>ErrorManager.bot_command_error\<close>\<close>

definition isinstance :: "exn \<Rightarrow> string list \<Rightarrow> bool" where
  "isinstance error cs = list_ex (\<lambda>c. c \<in> set (classes error)) cs"

text \<open>Lines 140 to 150: a listener, a handler of the command or a handler of the cog takes
  the error.\<close>

definition handled_locally :: "cmd_context \<Rightarrow> bool" where
  "handled_locally ctx =
     (0 < ctx_extra_events ctx
      \<or> (case ctx_command ctx of Some c \<Rightarrow> has_error_handler c | None \<Rightarrow> False)
      \<or> (case ctx_cog_has_error_handler ctx of Some h \<Rightarrow> h | None \<Rightarrow> False))"

text \<open>\<^verbatim>\<open>await ctx.send(str(error))\<close>.\<close>

definition ctx_send :: "string \<Rightarrow> state \<Rightarrow> result" where
  "ctx_send content s = (Inr (), s\<lparr>replies := replies s @ [content]\<rparr>)"

definition bot_command_error :: "cmd_context \<Rightarrow> exn \<Rightarrow> state \<Rightarrow> result" where
  "bot_command_error ctx error s =
     (if check_for_local_error_handlers (oce_settings s) \<and> handled_locally ctx then (Inr (), s)
      else if isinstance error (ignored_errors (oce_settings s)) then (Inr (), s)
      else if isinstance error [''CommandInvokeError'']
      then (case original error of
              Some cause \<Rightarrow> add_error cause (Some (Context ctx)) None s
            | None \<Rightarrow> (Inl AttributeError, s))
      else ctx_send (message error) s)"

subsection \<open>\<^verbatim>\<open>ErrorManager.bot_on_error\<close>\<close>

text \<open>The exception in flight, if any, as \<^verbatim>\<open>sys.exc_info()\<close> gives it; an exception object
  is truthy.\<close>

definition bot_on_error :: "exn option \<Rightarrow> state \<Rightarrow> result" where
  "bot_on_error exc_info s =
     (case exc_info of
        Some error \<Rightarrow> add_error error None None s
      | None \<Rightarrow> (Inr (), s))"

subsection \<open>Concurrent callers: the lock as a step relation\<close>

text \<open>
  Several tasks may be inside \<^verbatim>\<open>add_error\<close> at once. A task runs without interruption
  up to its next \<^verbatim>\<open>await\<close>, so a call records its packet and reaches the lock in one
  step; \<^verbatim>\<open>asyncio.Lock\<close> serves its waiters first come, first served. The task that
  holds the lock either delivers at once or sleeps; while it sleeps the clock moves and
  other tasks call. The system is the state, the sleeping holder of the lock with the
  clock value that ends its sleep, and the queue of the lock. The HTTP requests of a
  delivery take no time on this clock.
\<close>

record system =
  st :: state
  sleeping :: "(string \<times> packet \<times> instant) option"
  waiting :: "(string \<times> packet) list"

text \<open>Lines 338 and 339, and the three places that do the same: stamp and deliver, then
  leave the lock. An exception goes to the caller; the state stays as it is then.\<close>

definition deliver :: "string \<Rightarrow> packet \<Rightarrow> system \<Rightarrow> system" where
  "deliver tb p c =
     c\<lparr>st := snd (release_error tb p ((st c)\<lparr>most_recent := Some (now (st c))\<rparr>)),
       sleeping := None\<rparr>"

text \<open>Lines 322 to 336: the lock has just been acquired.\<close>

definition enter :: "string \<Rightarrow> packet \<Rightarrow> system \<Rightarrow> system" where
  "enter tb p c =
     (case most_recent (st c) of
        None \<Rightarrow> deliver tb p c
      | Some prev \<Rightarrow>
          (let time_between = time p - prev in
           if time_between > cooldown (st c) then deliver tb p c
           else c\<lparr>st := (st c)\<lparr>logged := logged (st c) @ [Debug_waiting time_between]\<rparr>,
                  sleeping := Some (tb, p, now (st c) + max 0 time_between)\<rparr>))"

definition call :: "exn \<Rightarrow> origin option \<Rightarrow> item option \<Rightarrow> system \<Rightarrow> system" where
  "call error ctx itm c =
     (let tb = traceback_string (cwd (st c)) error;
          p = make_packet error ctx (now (st c));
          c1 = c\<lparr>st := record_error error ctx itm (st c)\<rparr>
      in if sleeping c = None \<and> waiting c = [] then enter tb p c1
         else c1\<lparr>waiting := waiting c @ [(tb, p)]\<rparr>)"

definition advance :: "timedelta \<Rightarrow> system \<Rightarrow> system" where
  "advance d c = c\<lparr>st := (st c)\<lparr>now := now (st c) + d\<rparr>\<rparr>"

text \<open>What a step shows: time passing, a call with the packet it recorded, the lock
  passed to its next waiter, the end of the holder's sleep.\<close>

datatype event = Tick timedelta | Called exn packet | Granted | Woken

inductive step :: "system \<Rightarrow> event \<Rightarrow> system \<Rightarrow> bool" where
  tick: "0 \<le> d \<Longrightarrow> step c (Tick d) (advance d c)"
| called: "step c (Called error (make_packet error ctx (now (st c)))) (call error ctx itm c)"
| granted: "sleeping c = None \<Longrightarrow> waiting c = (tb, p) # rest \<Longrightarrow>
            step c Granted (enter tb p (c\<lparr>waiting := rest\<rparr>))"
| woken: "sleeping c = Some (tb, p, due) \<Longrightarrow> due \<le> now (st c) \<Longrightarrow>
          step c Woken (deliver tb p c)"

inductive run :: "system \<Rightarrow> event list \<Rightarrow> system \<Rightarrow> bool" where
  run_nil: "run c [] c"
| run_snoc: "run c evs c' \<Longrightarrow> step c' ev c'' \<Longrightarrow> run c (evs @ [ev]) c''"

definition idle :: "state \<Rightarrow> system" where
  "idle s = \<lparr>st = s, sleeping = None, waiting = []\<rparr>"

text \<open>The clock values at which deliveries reached the webhook: those of the first
  message of each \<^verbatim>\<open>release_error\<close>.\<close>

fun is_primary :: "webhook_message \<Rightarrow> bool" where
  "is_primary (Send_embed e kw) = True"
| "is_primary (Send_embeds es kw) = False"

definition delivery_times :: "state \<Rightarrow> instant list" where
  "delivery_times s = map fst (filter (\<lambda>(t, m). is_primary m) (sent s))"

section \<open>Notions the properties are stated with\<close>

text \<open>The packets stored under a key; a missing key holds none.\<close>

definition stored :: "state \<Rightarrow> string \<Rightarrow> packet list" where
  "stored s k = (case errors s k of Some ps \<Rightarrow> ps | None \<Rightarrow> [])"

text \<open>The packets that the calls of a run recorded, in the order of the calls, for the
  errors whose rendered traceback, with every occurrence of the working directory
  replaced by \<^verbatim>\<open>CWD\<close>, is the text \<open>k\<close>.\<close>

fun filed_under :: "string \<Rightarrow> string \<Rightarrow> event \<Rightarrow> packet list" where
  "filed_under dir k (Called error p) =
     (if py_replace (concat (format_exception error)) dir ''CWD'' = k then [p] else [])"
| "filed_under dir k (Tick d) = []"
| "filed_under dir k Granted = []"
| "filed_under dir k Woken = []"

definition recorded :: "string \<Rightarrow> string \<Rightarrow> event list \<Rightarrow> packet list" where
  "recorded dir k evs = concat (map (filed_under dir k) evs)"

text \<open>No HTTP request still to come raises.\<close>

definition transport_ok :: "state \<Rightarrow> bool" where
  "transport_ok s = list_all (\<lambda>ok. ok) (transport s)"

text \<open>What the sink leaves alone: everything but the webhook, the transport script, the
  messages sent and the log.\<close>

definition unchanged_by_sink :: "state \<Rightarrow> state \<Rightarrow> bool" where
  "unchanged_by_sink s s' \<longleftrightarrow>
     bot s' = bot s \<and> cooldown s' = cooldown s \<and> most_recent s' = most_recent s \<and>
     errors s' = errors s \<and> oce_settings s' = oce_settings s \<and> now s' = now s \<and>
     replies s' = replies s \<and> cwd s' = cwd s"

text \<open>A list cut into runs of \<open>n\<close>, the last one shorter when the length is no multiple
  of \<open>n\<close>: one transmission per full batch and one for the remainder.\<close>

function batches :: "nat \<Rightarrow> 'a list \<Rightarrow> 'a list list" where
  "batches n xs = (if xs = [] \<or> n = 0 then [] else take n xs # batches n (drop n xs))"
  by pat_completeness auto
termination
  by (relation "measure (\<lambda>(n, xs). length xs)") auto

declare batches.simps [simp del]

text \<open>The messages of one delivery, in the order of their transmission.\<close>

definition delivery :: "bot \<Rightarrow> string \<Rightarrow> packet \<Rightarrow> webhook_message list" where
  "delivery b traceback p =
     (case yield_code_chunks traceback of
        [] \<Rightarrow> []
      | first # code_chunks \<Rightarrow>
          Send_embed ((primary_embed b p)\<lparr>embed_description := Some first\<rparr>) (send_kwargs b) #
          map (\<lambda>es. Send_embeds es (send_kwargs b)) (batches 10 (map (chunk_embed b) code_chunks)))"

text \<open>The clock value at which \<^verbatim>\<open>add_error\<close> hands the packet to the sink.\<close>

definition release_clock :: "packet \<Rightarrow> state \<Rightarrow> instant" where
  "release_clock p s =
     (case most_recent s of
        None \<Rightarrow> now s
      | Some prev \<Rightarrow>
          if time p - prev > cooldown s then now s else now s + max 0 (time p - prev))"

text \<open>The outcomes of the HTTP requests made between a state and a later one, and whether
  one of these requests raised.\<close>

definition consumed :: "state \<Rightarrow> state \<Rightarrow> bool list" where
  "consumed s s' = take (length (transport s) - length (transport s')) (transport s)"

definition raised_between :: "state \<Rightarrow> state \<Rightarrow> bool" where
  "raised_between s s' \<longleftrightarrow> False \<in> set (consumed s s')"

text \<open>A result is sound for the transport script it started from: it used up a prefix of
  the script, and unless it is the exception of the transport, nothing in that prefix
  raised.\<close>

definition outcome_sound :: "result \<Rightarrow> bool list \<Rightarrow> bool" where
  "outcome_sound r script \<longleftrightarrow>
     (\<exists>k. transport (snd r) = drop k script \<and>
          (fst r \<noteq> Inl HTTPException \<longrightarrow> list_all (\<lambda>ok. ok) (take k script)))"

text \<open>Time passing between two calls.\<close>

definition later :: "timedelta \<Rightarrow> state \<Rightarrow> state" where
  "later d s = s\<lparr>now := now s + d\<rparr>"

subsection \<open>Concrete inputs\<close>

definition plain_bot :: bot where
  "plain_bot =
     \<lparr>bot_guilds = Map.empty, bot_users = Map.empty, bot_user = None, bot_class_name = ''Bot''\<rparr>"

definition boom :: exn where
  "boom =
     Exn [''ValueError'', ''Exception'', ''BaseException''] ''boom''
       [''ValueError: boom\<newline>''] None"

text \<open>A \<^verbatim>\<open>CommandInvokeError\<close> raised from \<open>boom\<close>: the rendering starts with the cause.\<close>

definition invoke_error :: exn where
  "invoke_error =
     Exn [''CommandInvokeError'', ''CommandError'', ''DiscordException'', ''Exception'',
          ''BaseException'']
       ''Command raised an exception: ValueError: boom''
       [''ValueError: boom\<newline>'',
        ''\<newline>The above exception was the direct cause of the following exception:\<newline>\<newline>'',
        ''discord.ext.commands.errors.CommandInvokeError: Command raised an exception: ValueError: boom\<newline>'']
       (Some boom)"

definition not_owner :: exn where
  "not_owner =
     Exn [''NotOwner'', ''CheckFailure'', ''CommandError'', ''DiscordException'', ''Exception'',
          ''BaseException'']
       ''You do not own this bot.''
       [''discord.ext.commands.errors.NotOwner: You do not own this bot.\<newline>''] None"

definition fresh :: state where
  "fresh = new_manager plain_bot (seconds 5) (default_settings False) 0 ''/home/bot''"

definition ping :: command where
  "ping = \<lparr>qualified_name = ''ping'', has_error_handler = False\<rparr>"

definition ping_context :: cmd_context where
  "ping_context =
     \<lparr>ctx_command = Some ping, ctx_author_id = 42, ctx_guild_id = Some 7, ctx_channel_id = 9,
      ctx_message_created_at = 0, ctx_extra_events = 0, ctx_cog_has_error_handler = None\<rparr>"

definition ping_interaction :: interaction where
  "ping_interaction =
     \<lparr>int_command = Some ping, int_user_id = 42, int_guild_id = Some 7,
      int_channel_id = Some 9, int_message_created_at = None\<rparr>"

definition long_traceback :: string where
  "long_traceback = replicate 25000 CHR ''x''"

definition handled_context :: cmd_context where
  "handled_context = ping_context\<lparr>ctx_command := Some (ping\<lparr>has_error_handler := True\<rparr>)\<rparr>"

text \<open>A bot that knows the user 42 and no guild, and a packet from guild 7.\<close>

definition lonely_bot :: bot where
  "lonely_bot =
     plain_bot\<lparr>bot_users := [42 \<mapsto> \<lparr>user_str = ''duck'', user_id = 42\<rparr>]\<rparr>"

definition ping_packet :: packet where
  "ping_packet = make_packet boom (Some (Context ping_context)) 0"

text \<open>A manager whose second HTTP request will raise.\<close>

definition flaky :: state where
  "flaky = fresh\<lparr>transport := [True, False]\<rparr>"

text \<open>The packet of an error reported without a context when the clock shows 0.\<close>

definition bare_packet :: packet where
  "bare_packet = make_packet boom None 0"

text \<open>Two tasks report the same error at clock 0; the second one, asleep inside the lock
  for no time at all, is woken.\<close>

definition burst :: system where
  "burst =
     deliver ''ValueError: boom\<newline>'' bare_packet
       (call boom None None (call boom None None (idle fresh)))"

text \<open>
  An error raised in a file below the working directory, with the traceback Python prints
  for it, and the same error from a bot started with the relative path \<^verbatim>\<open>CWD/cogs/x.py\<close>:
  the two renderings differ, and are the same text once the working directory is replaced.
\<close>

definition quoted :: "string \<Rightarrow> string" where
  "quoted s = CHR 0x22 # s @ [CHR 0x22]"

definition crash_at :: "string \<Rightarrow> exn" where
  "crash_at path =
     Exn [''ValueError'', ''Exception'', ''BaseException''] ''boom''
       [''Traceback (most recent call last):\<newline>'',
        ''  File '' @ quoted path @ '', line 3, in f\<newline>    raise ValueError('' @
          quoted ''boom'' @ '')\<newline>'',
        ''ValueError: boom\<newline>''] None"

definition crash :: exn where
  "crash = crash_at ''/home/bot/cogs/x.py''"

definition crash_relative :: exn where
  "crash_relative = crash_at ''CWD/cogs/x.py''"

definition crash_key :: string where
  "crash_key =
     ''Traceback (most recent call last):\<newline>  File '' @ quoted ''CWD/cogs/x.py'' @
     '', line 3, in f\<newline>    raise ValueError('' @ quoted ''boom'' @
     '')\<newline>ValueError: boom\<newline>''"

text \<open>Four calls at clock 0: the error, the same error by the relative path, another
  error, the first error again.\<close>

definition owner_packet :: packet where
  "owner_packet = make_packet not_owner (Some (Context ping_context)) 0"

definition four_calls :: system where
  "four_calls =
     call crash None None
       (call not_owner (Some (Context ping_context)) None
          (call crash_relative None None (call crash None None (idle fresh))))"

text \<open>A traceback of two full slices and one character, and the number of embeds a
  message carries.\<close>

definition three_chunk_traceback :: string where
  "three_chunk_traceback = replicate 1991 CHR ''a'' @ replicate 1991 CHR ''b'' @ ''c''"

fun embeds_in :: "webhook_message \<Rightarrow> nat" where
  "embeds_in (Send_embed e kw) = 1"
| "embeds_in (Send_embeds es kw) = length es"

section \<open>Evaluation and frame lemmas\<close>

lemma digits_small: "n < 10 \<Longrightarrow> digits n = [digit_char n]"
  by (simp add: digits.simps)

lemma digits_large: "\<not> n < 10 \<Longrightarrow> digits n = digits (n div 10) @ [digit_char (n mod 10)]"
  by (subst digits.simps) simp

lemma cbs_eq: "cbs = 9"
  by (simp add: cbs_def code_blocker_def)

lemma format_code_blocker: "format_str code_blocker x = ''```py\<newline>'' @ x @ ''```''"
  by (simp add: code_blocker_def)

lemma scale_up_done: "n = 0 \<or> 2 ^ 52 * 1000000 \<le> n * 2 ^ k \<Longrightarrow> scale_up n k = k"
  by (subst scale_up.simps) simp

lemma scale_up_more:
  "\<not> (n = 0 \<or> 2 ^ 52 * 1000000 \<le> n * 2 ^ k) \<Longrightarrow> scale_up n k = scale_up n (Suc k)"
  by (subst scale_up.simps) simp

text \<open>An instant of today prints its whole seconds; late in the year 2514 the float of
  an instant that ends in .999999 is the next whole number, and that is what is printed.\<close>

lemma format_dt_examples:
  "format_dt 0 = ''<t:0>''"
  "format_dt 1700000000123456 = ''<t:1700000000>''"
  "format_dt 17179869184999999 = ''<t:17179869185>''"
proof -
  show "format_dt 0 = ''<t:0>''"
    by (simp add: format_dt_def unix_seconds_def str_int_def digits_small digit_char_def)
  have a: "scale_up 1700000000123456 0 = 22"
    by (simp add: scale_up_more scale_up_done)
  show "format_dt 1700000000123456 = ''<t:1700000000>''"
    by (simp add: format_dt_def unix_seconds_def a round_half_even_def Let_def str_int_def
        digits_small digits_large digit_char_def)
  have b: "scale_up 17179869184999999 0 = 18"
    by (simp add: scale_up_more scale_up_done)
  show "format_dt 17179869184999999 = ''<t:17179869185>''"
    by (simp add: format_dt_def unix_seconds_def b round_half_even_def Let_def str_int_def
        digits_small digits_large digit_char_def)
qed

lemma chunks_from_done: "\<not> (i < length xs \<and> 0 < k) \<Longrightarrow> chunks_from i k xs = []"
  by (subst chunks_from.simps) simp

lemma chunks_from_more:
  "i < length xs \<Longrightarrow> 0 < k \<Longrightarrow>
   chunks_from i k xs = format_str code_blocker (slice xs i (i + k)) # chunks_from (i + k) k xs"
  by (subst chunks_from.simps) simp

lemma unchanged_refl: "unchanged_by_sink s s"
  by (simp add: unchanged_by_sink_def)

lemma unchanged_trans: "unchanged_by_sink s s' \<Longrightarrow> unchanged_by_sink s' s'' \<Longrightarrow> unchanged_by_sink s s''"
  by (simp add: unchanged_by_sink_def)

lemma request_unchanged: "unchanged_by_sink s (snd (request s))"
  by (simp add: unchanged_by_sink_def request_def split: list.splits)

lemma webhook_fetch_unchanged: "unchanged_by_sink s (snd (webhook_fetch s))"
  using request_unchanged [of s]
  by (auto simp: unchanged_by_sink_def webhook_fetch_def split: prod.splits bool.splits)

lemma webhook_send_unchanged: "unchanged_by_sink s (snd (webhook_send m s))"
  using request_unchanged [of s]
  by (auto simp: unchanged_by_sink_def webhook_send_def split: prod.splits bool.splits)

lemma ensure_webhook_unchanged: "unchanged_by_sink s (snd (ensure_webhook s))"
  by (simp add: ensure_webhook_def webhook_fetch_unchanged unchanged_refl)

lemma and_then_unchanged:
  assumes "unchanged_by_sink s (snd r)" and "\<And>s1. unchanged_by_sink s1 (snd (f s1))"
  shows "unchanged_by_sink s (snd (and_then r f))"
proof (cases r)
  case (Pair o1 s1)
  show ?thesis
  proof (cases o1)
    case (Inl e)
    with Pair assms(1) show ?thesis by (simp add: and_then_def)
  next
    case (Inr u)
    with Pair assms(1) assms(2) [of s1] show ?thesis
      by (auto simp: and_then_def intro: unchanged_trans)
  qed
qed

lemma send_chunks_unchanged: "unchanged_by_sink s (snd (send_chunks cs es s))"
proof (induction cs arbitrary: es s)
  case Nil
  show ?case by (simp add: webhook_send_unchanged unchanged_refl)
next
  case (Cons c cs)
  show ?case
    by (simp add: Let_def Cons.IH and_then_unchanged webhook_send_unchanged)
qed

lemma warn_unchanged: "unchanged_by_sink s (warn_unknown_guild p s)"
  by (simp add: warn_unknown_guild_def unchanged_by_sink_def split: option.splits)

lemma release_error_unchanged: "unchanged_by_sink s (snd (release_error tb p s))"
proof -
  let ?s0 = "s\<lparr>logged := logged s @ [Error_releasing (exception p)]\<rparr>"
  have a: "unchanged_by_sink s ?s0" by (simp add: unchanged_by_sink_def)
  have b: "unchanged_by_sink ?s0 (snd (release_error tb p s))"
    unfolding release_error_def
    apply (rule and_then_unchanged)
     apply (rule ensure_webhook_unchanged)
    apply (rule and_then_unchanged)
     apply (rule unchanged_trans [OF warn_unchanged ensure_webhook_unchanged])
    apply (simp split: list.splits add: unchanged_refl)
    apply (intro allI impI and_then_unchanged webhook_send_unchanged send_chunks_unchanged)
    done
  from a b show ?thesis by (rule unchanged_trans)
qed


subsection \<open>The code chunks\<close>

lemma chunks_from_length:
  "0 < k \<Longrightarrow> length (chunks_from i k xs) = (length xs - i + k - 1) div k"
proof (induction i k xs rule: chunks_from.induct)
  case (1 i k xs)
  show ?case
  proof (cases "i < length xs")
    case False
    with 1(2) show ?thesis by (simp add: chunks_from_done)
  next
    case True
    have ih: "length (chunks_from (i + k) k xs) = (length xs - (i + k) + k - 1) div k"
      using 1 True by simp
    show ?thesis
    proof (cases "i + k \<le> length xs")
      case True
      define a where "a = length xs - (i + k) + k - 1"
      have "length xs - i + k - 1 = a + k"
        using True 1(2) by (simp add: a_def)
      moreover have "(a + k) div k = a div k + 1"
        using 1(2) div_add_self2 [of k a] by simp
      ultimately have "(length xs - i + k - 1) div k = a div k + 1"
        by presburger
      moreover have "length (chunks_from i k xs) = length (chunks_from (i + k) k xs) + 1"
        using \<open>i < length xs\<close> 1(2) by (simp add: chunks_from_more)
      ultimately show ?thesis using ih by (simp only: a_def)
    next
      case False
      then have z: "length xs - (i + k) = 0" by simp
      have "k \<le> length xs - i + k - 1" using \<open>i < length xs\<close> by simp
      moreover have "length xs - i + k - 1 < 2 * k" using False 1(2) by simp
      ultimately have "(length xs - i + k - 1) div k = 1"
        by (intro div_nat_eqI) simp_all
      moreover have "(length xs - (i + k) + k - 1) div k = 0"
        using z 1(2) by simp
      moreover have "length (chunks_from i k xs) = length (chunks_from (i + k) k xs) + 1"
        using \<open>i < length xs\<close> 1(2) by (simp add: chunks_from_more)
      ultimately show ?thesis using ih by presburger
    qed
  qed
qed

lemma chunks_from_bound:
  "c \<in> set (chunks_from i k xs) \<Longrightarrow> length c \<le> k + cbs"
proof (induction i k xs rule: chunks_from.induct)
  case (1 i k xs)
  show ?case
  proof (cases "i < length xs \<and> 0 < k")
    case False
    with 1(2) show ?thesis by (simp add: chunks_from_done)
  next
    case True
    with 1 show ?thesis
      by (auto simp: chunks_from_more format_code_blocker slice_def cbs_eq)
  qed
qed

lemma chunks_from_nonempty: "xs \<noteq> [] \<Longrightarrow> 0 < k \<Longrightarrow> chunks_from 0 k xs \<noteq> []"
  by (simp add: chunks_from_more)

subsection \<open>Batches\<close>

lemma batches_done: "xs = [] \<or> n = 0 \<Longrightarrow> batches n xs = []"
  by (subst batches.simps) simp

lemma batches_more: "xs \<noteq> [] \<Longrightarrow> 0 < n \<Longrightarrow> batches n xs = take n xs # batches n (drop n xs)"
  by (subst batches.simps) simp

lemma concat_batches: "0 < n \<Longrightarrow> concat (batches n xs) = xs"
proof (induction n xs rule: batches.induct)
  case (1 n xs)
  then show ?case
    by (cases "xs = []") (simp_all add: batches_done batches_more)
qed

lemma batches_sizes: "b \<in> set (batches n xs) \<Longrightarrow> b \<noteq> [] \<and> length b \<le> n"
proof (induction n xs rule: batches.induct)
  case (1 n xs)
  show ?case
  proof (cases "xs = [] \<or> n = 0")
    case True
    with 1(2) show ?thesis by (simp add: batches_done)
  next
    case False
    with 1 show ?thesis by (auto simp: batches_more)
  qed
qed

lemma batches_length: "0 < n \<Longrightarrow> length (batches n xs) = (length xs + n - 1) div n"
proof (induction n xs rule: batches.induct)
  case (1 n xs)
  show ?case
  proof (cases "xs = []")
    case True
    with 1(2) show ?thesis by (simp add: batches_done)
  next
    case False
    have ih: "length (batches n (drop n xs)) = (length xs - n + n - 1) div n"
      using 1 False by simp
    have len: "length (batches n xs) = length (batches n (drop n xs)) + 1"
      using False 1(2) by (simp add: batches_more)
    show ?thesis
    proof (cases "n \<le> length xs")
      case True
      define a where "a = length xs - n + n - 1"
      have "length xs + n - 1 = a + n" using True 1(2) by (simp add: a_def)
      moreover have "(a + n) div n = a div n + 1"
        using 1(2) div_add_self2 [of n a] by simp
      ultimately have "(length xs + n - 1) div n = a div n + 1" by presburger
      with len ih show ?thesis by (simp only: a_def)
    next
      case small: False
      have "1 \<le> length xs" using False by (cases xs) simp_all
      then have "n \<le> length xs + n - 1" by arith
      moreover have "length xs + n - 1 < 2 * n" using small 1(2) by simp
      ultimately have "(length xs + n - 1) div n = 1"
        by (intro div_nat_eqI) simp_all
      moreover have "(length xs - n + n - 1) div n = 0" using small 1(2) by simp
      ultimately show ?thesis using len ih by presburger
    qed
  qed
qed

lemma batches_full: "Suc i < length (batches n xs) \<Longrightarrow> length (batches n xs ! i) = n"
proof (induction n xs arbitrary: i rule: batches.induct)
  case (1 n xs)
  show ?case
  proof (cases "xs = [] \<or> n = 0")
    case True
    with 1(2) show ?thesis by (simp add: batches_done)
  next
    case False
    then have eq: "batches n xs = take n xs # batches n (drop n xs)"
      by (simp add: batches_more)
    have rest: "batches n (drop n xs) \<noteq> []" using 1(2) eq by auto
    then have "drop n xs \<noteq> []" by (auto simp: batches_done)
    then have full: "length (take n xs) = n" by simp
    show ?thesis
    proof (cases i)
      case 0
      with eq full show ?thesis by simp
    next
      case (Suc j)
      with 1(2) eq have "Suc j < length (batches n (drop n xs))" by simp
      with 1(1) False have "length (batches n (drop n xs) ! j) = n" by simp
      with eq Suc show ?thesis by simp
    qed
  qed
qed

subsection \<open>A transport that does not fail\<close>

lemma request_ok:
  assumes "transport_ok s"
  shows "fst (request s)" and "transport_ok (snd (request s))"
    and "sent (snd (request s)) = sent s" and "logged (snd (request s)) = logged s"
    and "webhook_partial (snd (request s)) = webhook_partial s"
  using assms by (auto simp: transport_ok_def request_def split: list.splits)

lemma webhook_send_ok:
  assumes "transport_ok s"
  shows "fst (webhook_send m s) = Inr ()"
    and "sent (snd (webhook_send m s)) = sent s @ [(now s, m)]"
    and "logged (snd (webhook_send m s)) = logged s"
    and "transport_ok (snd (webhook_send m s))"
    and "webhook_partial (snd (webhook_send m s)) = webhook_partial s"
  using request_ok [OF assms] request_unchanged [of s]
  by (auto simp: webhook_send_def transport_ok_def unchanged_by_sink_def split: prod.splits bool.splits)

lemma ensure_webhook_ok:
  assumes "transport_ok s"
  shows "fst (ensure_webhook s) = Inr ()"
    and "sent (snd (ensure_webhook s)) = sent s"
    and "logged (snd (ensure_webhook s)) = logged s"
    and "transport_ok (snd (ensure_webhook s))"
    and "webhook_partial (snd (ensure_webhook s)) = False"
  using assms request_ok [OF assms]
  by (auto simp: ensure_webhook_def webhook_fetch_def transport_ok_def split: prod.splits bool.splits)

lemma and_then_ok: "fst r = Inr () \<Longrightarrow> and_then r f = f (snd r)"
  by (cases r) (auto simp: and_then_def)

lemma send_chunks_ok:
  assumes "transport_ok s" and "length es < 10"
  shows "fst (send_chunks cs es s) = Inr () \<and>
         sent (snd (send_chunks cs es s)) =
           sent s @ map (\<lambda>b. (now s, Send_embeds b (send_kwargs (bot s))))
                      (batches 10 (es @ map (chunk_embed (bot s)) cs)) \<and>
         logged (snd (send_chunks cs es s)) = logged s \<and>
         transport_ok (snd (send_chunks cs es s)) \<and>
         webhook_partial (snd (send_chunks cs es s)) = webhook_partial s"
  using assms
proof (induction cs arbitrary: es s)
  case Nil
  show ?case
  proof (cases "es = []")
    case True
    with Nil show ?thesis by (simp add: batches_done)
  next
    case False
    with Nil(2) have "batches 10 es = [es]" by (simp add: batches_more batches_done)
    with False webhook_send_ok [OF Nil(1)] show ?thesis by simp
  qed
next
  case (Cons c cs)
  let ?es' = "es @ [chunk_embed (bot s) c]"
  show ?case
  proof (cases "length ?es' = 10")
    case True
    let ?m = "Send_embeds ?es' (send_kwargs (bot s))"
    let ?s1 = "snd (webhook_send ?m s)"
    have un: "bot ?s1 = bot s" "now ?s1 = now s"
      using webhook_send_unchanged [of s ?m] by (simp_all add: unchanged_by_sink_def)
    have ok: "transport_ok ?s1" using webhook_send_ok(4) [OF Cons.prems(1)] .
    have run: "send_chunks (c # cs) es s = send_chunks cs [] ?s1"
      using True webhook_send_ok(1) [OF Cons.prems(1), of ?m] by (simp add: Let_def and_then_ok)
    have split: "batches 10 (es @ map (chunk_embed (bot s)) (c # cs)) =
        ?es' # batches 10 (map (chunk_embed (bot s)) cs)"
      using True by (simp add: batches_more)
    from Cons.IH [OF ok, of "[]"] un webhook_send_ok [OF Cons.prems(1), of ?m]
    show ?thesis unfolding run split by simp
  next
    case False
    with Cons.prems(2) have short: "length ?es' < 10" by simp
    have run: "send_chunks (c # cs) es s = send_chunks cs ?es' s"
      using False by (simp add: Let_def)
    from Cons.IH [OF Cons.prems(1) short] show ?thesis unfolding run by simp
  qed
qed

subsection \<open>A delivery over a transport that does not fail\<close>

lemma warn_unknown_guild_simps:
  "bot (warn_unknown_guild p s) = bot s" "now (warn_unknown_guild p s) = now s"
  "sent (warn_unknown_guild p s) = sent s"
  "transport_ok (warn_unknown_guild p s) = transport_ok s"
  "logged (warn_unknown_guild p s) =
     logged s @ (case get_guild (bot s) (guild p) of
                   Some g \<Rightarrow> [] | None \<Rightarrow> [Warning_unknown_guild (guild p)])"
  by (simp_all add: warn_unknown_guild_def transport_ok_def split: option.splits)

lemma release_error_ok:
  assumes ok: "transport_ok s" and ne: "traceback \<noteq> []"
  shows "fst (release_error traceback p s) = Inr ()"
    and "sent (snd (release_error traceback p s)) =
           sent s @ map (Pair (now s)) (delivery (bot s) traceback p)"
    and "logged (snd (release_error traceback p s)) =
           logged s @ Error_releasing (exception p) #
             (case get_guild (bot s) (guild p) of
                Some g \<Rightarrow> [] | None \<Rightarrow> [Warning_unknown_guild (guild p)])"
    and "transport_ok (snd (release_error traceback p s))"
    and "webhook_partial (snd (release_error traceback p s)) = False"
proof -
  let ?s0 = "s\<lparr>logged := logged s @ [Error_releasing (exception p)]\<rparr>"
  let ?s1 = "snd (ensure_webhook ?s0)"
  let ?s2 = "snd (ensure_webhook (warn_unknown_guild p ?s1))"
  have ok0: "transport_ok ?s0" using ok by (simp add: transport_ok_def)
  note e1 = ensure_webhook_ok [OF ok0]
  have u1: "bot ?s1 = bot s" "now ?s1 = now s"
    using ensure_webhook_unchanged [of ?s0] by (simp_all add: unchanged_by_sink_def)
  have okw: "transport_ok (warn_unknown_guild p ?s1)"
    using e1(4) by (simp add: warn_unknown_guild_simps)
  note e2 = ensure_webhook_ok [OF okw]
  have u2: "bot ?s2 = bot s" "now ?s2 = now s"
    using ensure_webhook_unchanged [of "warn_unknown_guild p ?s1"] u1
    by (simp_all add: unchanged_by_sink_def warn_unknown_guild_simps)
  have sent2: "sent ?s2 = sent s"
    using e2(2) e1(2) by (simp add: warn_unknown_guild_simps)
  have log2: "logged ?s2 = logged s @ Error_releasing (exception p) #
      (case get_guild (bot s) (guild p) of Some g \<Rightarrow> [] | None \<Rightarrow> [Warning_unknown_guild (guild p)])"
    using e2(3) e1(3) u1 by (simp add: warn_unknown_guild_simps)
  from ne obtain first code_chunks where ch: "yield_code_chunks traceback = first # code_chunks"
    using chunks_from_nonempty [of traceback "chunksize - cbs"]
    by (cases "yield_code_chunks traceback") (auto simp: yield_code_chunks_def chunksize_def cbs_eq)
  let ?m = "Send_embed ((primary_embed (bot ?s2) p)\<lparr>embed_description := Some first\<rparr>)
              (send_kwargs (bot ?s2))"
  let ?s3 = "snd (webhook_send ?m ?s2)"
  note w = webhook_send_ok [OF e2(4), of ?m]
  have u3: "bot ?s3 = bot s" "now ?s3 = now s"
    using webhook_send_unchanged [of ?s2 ?m] u2 by (simp_all add: unchanged_by_sink_def)
  have eq: "release_error traceback p s = send_chunks code_chunks [] ?s3"
    using e1(1) e2(1) w(1) by (simp add: release_error_def and_then_ok ch)
  note sc = send_chunks_ok [OF w(4), of "[]" code_chunks]
  show "fst (release_error traceback p s) = Inr ()" using sc by (simp add: eq)
  show "sent (snd (release_error traceback p s)) =
           sent s @ map (Pair (now s)) (delivery (bot s) traceback p)"
    using sc w(2) sent2 u2 u3 by (simp add: eq delivery_def ch)
  show "logged (snd (release_error traceback p s)) =
           logged s @ Error_releasing (exception p) #
             (case get_guild (bot s) (guild p) of
                Some g \<Rightarrow> [] | None \<Rightarrow> [Warning_unknown_guild (guild p)])"
    using sc w(3) log2 by (simp add: eq)
  show "transport_ok (snd (release_error traceback p s))" using sc by (simp add: eq)
  show "webhook_partial (snd (release_error traceback p s)) = False"
    using sc w(5) e2(5) by (simp add: eq)
qed

section \<open>The sink\<close>

lemma ceil_div_bounds:
  fixes n k :: nat
  assumes "0 < k"
  shows "n \<le> (n + k - 1) div k * k" and "(n + k - 1) div k * k < n + k"
proof -
  define q where "q = (n + k - 1) div k"
  define r where "r = (n + k - 1) mod k"
  have "q * k + r = n + k - 1" by (simp add: q_def r_def)
  moreover have "r < k" using assms by (simp add: r_def)
  ultimately show "n \<le> (n + k - 1) div k * k" and "(n + k - 1) div k * k < n + k"
    using assms unfolding q_def [symmetric] by linarith+
qed

lemma yield_code_chunks_length:
  "length (yield_code_chunks traceback) = (length traceback + 1991 - 1) div 1991"
  using chunks_from_length [of 1991 0 traceback]
  by (simp add: yield_code_chunks_def chunksize_def cbs_eq)

lemma yield_code_chunks_bound:
  "c \<in> set (yield_code_chunks traceback) \<Longrightarrow> length c \<le> 2000"
  using chunks_from_bound [of c 0 1991 traceback]
  by (simp add: yield_code_chunks_def chunksize_def cbs_eq)


lemma chunks_from_nth:
  "0 < k \<Longrightarrow> n < length (chunks_from i k xs) \<Longrightarrow>
   chunks_from i k xs ! n = format_str code_blocker (take k (drop (i + n * k) xs))"
proof (induction i k xs arbitrary: n rule: chunks_from.induct)
  case (1 i k xs)
  show ?case
  proof (cases "i < length xs")
    case False
    with 1(3) show ?thesis by (simp add: chunks_from_done)
  next
    case True
    then have eq: "chunks_from i k xs =
        format_str code_blocker (slice xs i (i + k)) # chunks_from (i + k) k xs"
      using 1(2) by (simp add: chunks_from_more)
    show ?thesis
    proof (cases n)
      case 0
      then show ?thesis by (simp add: eq slice_def)
    next
      case (Suc m)
      with 1(3) eq have "m < length (chunks_from (i + k) k xs)" by simp
      with 1(1) [of m] True 1(2)
      have "chunks_from (i + k) k xs ! m =
          format_str code_blocker (take k (drop (i + k + m * k) xs))"
        by simp
      then show ?thesis by (simp add: eq Suc add.assoc add.commute)
    qed
  qed
qed

lemma chunks_from_reassemble:
  "0 < k \<Longrightarrow>
   concat (map (\<lambda>n. take k (drop (i + n * k) xs)) [0..<length (chunks_from i k xs)]) = drop i xs"
proof (induction i k xs rule: chunks_from.induct)
  case (1 i k xs)
  show ?case
  proof (cases "i < length xs")
    case False
    with 1(2) show ?thesis by (simp add: chunks_from_done)
  next
    case True
    let ?L = "length (chunks_from (i + k) k xs)"
    have len: "length (chunks_from i k xs) = Suc ?L"
      using True 1(2) by (simp add: chunks_from_more)
    have ih: "concat (map (\<lambda>n. take k (drop (i + k + n * k) xs)) [0..<?L]) = drop (i + k) xs"
      using 1 True by simp
    have "[0..<Suc ?L] = 0 # map Suc [0..<?L]"
      by (simp add: upt_conv_Cons map_Suc_upt del: upt_Suc)
    then have "concat (map (\<lambda>n. take k (drop (i + n * k) xs)) [0..<Suc ?L]) =
        take k (drop i xs) @ concat (map (\<lambda>n. take k (drop (i + Suc n * k) xs)) [0..<?L])"
      by (simp add: comp_def del: upt_Suc)
    also have "(\<lambda>n. take k (drop (i + Suc n * k) xs)) = (\<lambda>n. take k (drop (i + k + n * k) xs))"
      by (simp add: add.assoc)
    also have "take k (drop i xs) @ concat (map (\<lambda>n. take k (drop (i + k + n * k) xs)) [0..<?L]) =
        take k (drop i xs) @ drop k (drop i xs)"
      by (simp add: ih add.commute)
    also have "\<dots> = drop i xs" by (simp only: append_take_drop_id)
    finally show ?thesis by (simp only: len)
  qed
qed

lemma yield_code_chunks_nth:
  "n < length (yield_code_chunks traceback) \<Longrightarrow>
   yield_code_chunks traceback ! n =
     ''```py\<newline>'' @ take 1991 (drop (n * 1991) traceback) @ ''```''"
  using chunks_from_nth [of 1991 n 0 traceback]
  by (simp add: yield_code_chunks_def chunksize_def cbs_eq format_code_blocker)

lemma yield_code_chunks_reassemble:
  "concat (map (\<lambda>n. take 1991 (drop (n * 1991) traceback))
             [0..<length (yield_code_chunks traceback)]) = traceback"
  using chunks_from_reassemble [of 1991 0 traceback]
  by (simp add: yield_code_chunks_def chunksize_def cbs_eq)

lemma chunk_embed_explicit:
  "chunk_embed b entry =
     \<lparr>embed_title = None, embed_timestamp = None, embed_description = Some entry,
      embed_fields = [],
      embed_author = (case bot_user b of
                        Some u \<Rightarrow> Some (client_str u, display_avatar_url u)
                      | None \<Rightarrow> None)\<rparr>"
  by (simp add: chunk_embed_def set_bot_author_def split: option.splits)

text \<open>
  C7. A non-empty traceback of \<open>N\<close> characters is cut into \<open>ceil (N / (2000 - cbs))\<close> code
  blocks, where \<open>cbs = 9\<close> is the length of the markers around a block: block \<open>n\<close> is the
  slice of the traceback from \<open>n * (2000 - cbs)\<close>, of \<open>2000 - cbs\<close> characters or what is
  left of them, between the markers; the slices in their order are the traceback; no
  block is longer than 2000 characters. When no request fails, \<^verbatim>\<open>release_error\<close> returns
  and has sent the first block as the description of the embed of the first message, and
  every other block as the description of an embed of its own, these embeds in the order
  of the blocks in further calls: each call carries between one and ten embeds, every
  call but the last carries ten, and there are \<open>ceil ((blocks - 1) / 10)\<close> of them.
\<close>

theorem release_error_chunks_and_batches:
  assumes "traceback \<noteq> []" and "transport_ok s"
  shows
    "(let code_chunks = yield_code_chunks traceback;
          width = 2000 - cbs;
          followers =
            map (\<lambda>entry.
                  \<lparr>embed_title = None, embed_timestamp = None, embed_description = Some entry,
                   embed_fields = [],
                   embed_author = (case bot_user (bot s) of
                                     Some u \<Rightarrow> Some (client_str u, display_avatar_url u)
                                   | None \<Rightarrow> None)\<rparr>)
              (tl code_chunks);
          calls = batches 10 followers;
          s' = snd (release_error traceback p s)
      in cbs = length ''```py\<newline>'' + length ''```'' \<and>
         length code_chunks = (length traceback + width - 1) div width \<and>
         length traceback \<le> length code_chunks * width \<and>
         length code_chunks * width < length traceback + width \<and>
         (\<forall>n < length code_chunks.
            code_chunks ! n = ''```py\<newline>'' @ take width (drop (n * width) traceback) @ ''```'') \<and>
         concat (map (\<lambda>n. take width (drop (n * width) traceback)) [0..<length code_chunks]) =
           traceback \<and>
         (\<forall>c \<in> set code_chunks. length c \<le> 2000) \<and>
         fst (release_error traceback p s) = Inr () \<and>
         sent s' =
           sent s @
           (now s, Send_embed ((primary_embed (bot s) p)\<lparr>embed_description := Some (hd code_chunks)\<rparr>)
                     (send_kwargs (bot s))) #
           map (\<lambda>es. (now s, Send_embeds es (send_kwargs (bot s)))) calls \<and>
         concat calls = followers \<and>
         map embed_description (concat calls) = map Some (tl code_chunks) \<and>
         (\<forall>es \<in> set calls. 1 \<le> length es \<and> length es \<le> 10) \<and>
         (\<forall>i. Suc i < length calls \<longrightarrow> length (calls ! i) = 10) \<and>
         length calls = (length code_chunks - 1 + 9) div 10)"
proof -
  let ?chunks = "yield_code_chunks traceback"
  let ?followers =
    "map (\<lambda>entry.
            \<lparr>embed_title = None, embed_timestamp = None, embed_description = Some entry,
             embed_fields = [],
             embed_author = (case bot_user (bot s) of
                               Some u \<Rightarrow> Some (client_str u, display_avatar_url u)
                             | None \<Rightarrow> None)\<rparr>)
       (tl ?chunks)"
  let ?calls = "batches 10 ?followers"
  have f: "?followers = map (chunk_embed (bot s)) (tl ?chunks)"
    by (simp add: chunk_embed_explicit)
  have k: "2000 - cbs = 1991" by (simp add: cbs_eq)
  have c1: "cbs = length ''```py\<newline>'' + length ''```''" by (simp add: cbs_eq)
  have c2: "length ?chunks = (length traceback + (2000 - cbs) - 1) div (2000 - cbs)"
    unfolding k by (rule yield_code_chunks_length)
  have c3: "length traceback \<le> length ?chunks * (2000 - cbs)"
    unfolding c2 by (rule ceil_div_bounds) (simp add: k)
  have c4: "length ?chunks * (2000 - cbs) < length traceback + (2000 - cbs)"
    unfolding c2 by (rule ceil_div_bounds) (simp add: k)
  have c4a: "\<forall>n < length ?chunks.
      ?chunks ! n = ''```py\<newline>'' @ take (2000 - cbs) (drop (n * (2000 - cbs)) traceback) @ ''```''"
    unfolding k using yield_code_chunks_nth by blast
  have c4b: "concat (map (\<lambda>n. take (2000 - cbs) (drop (n * (2000 - cbs)) traceback))
      [0..<length ?chunks]) = traceback"
    unfolding k by (rule yield_code_chunks_reassemble)
  have c5: "\<forall>c \<in> set ?chunks. length c \<le> 2000"
    using yield_code_chunks_bound by blast
  have c6: "fst (release_error traceback p s) = Inr ()"
    by (rule release_error_ok(1) [OF assms(2) assms(1)])
  have "length traceback \<noteq> 0" using assms(1) by simp
  with c3 have "?chunks \<noteq> []" by (cases "?chunks") auto
  then obtain first rest where ch: "?chunks = first # rest"
    by (cases ?chunks) auto
  have c7: "sent (snd (release_error traceback p s)) =
      sent s @
      (now s, Send_embed ((primary_embed (bot s) p)\<lparr>embed_description := Some (hd ?chunks)\<rparr>)
                (send_kwargs (bot s))) #
      map (\<lambda>es. (now s, Send_embeds es (send_kwargs (bot s)))) ?calls"
    unfolding release_error_ok(2) [OF assms(2) assms(1)] f
    by (simp add: delivery_def ch comp_def)
  have c8: "concat ?calls = ?followers"
    by (rule concat_batches) simp
  have c8a: "map embed_description (concat ?calls) = map Some (tl ?chunks)"
    unfolding c8 by (simp add: comp_def)
  have c9: "\<forall>es \<in> set ?calls. 1 \<le> length es \<and> length es \<le> 10"
  proof
    fix es assume "es \<in> set ?calls"
    from batches_sizes [OF this] show "1 \<le> length es \<and> length es \<le> 10"
      by (cases es) auto
  qed
  have c10: "\<forall>i. Suc i < length ?calls \<longrightarrow> length (?calls ! i) = 10"
    using batches_full by blast
  have c11: "length ?calls = (length ?chunks - 1 + 9) div 10"
    by (simp add: batches_length)
  show ?thesis
    unfolding Let_def
    by (intro conjI) (fact c1 c2 c3 c4 c4a c4b c5 c6 c7 c8 c8a c9 c10 c11)+
qed

lemma transport_ok_fresh: "transport_ok fresh"
  by (simp add: fresh_def new_manager_def transport_ok_def)

lemma list_of_three: "length xs = 3 \<Longrightarrow> xs = [xs ! 0, xs ! 1, xs ! 2]"
proof -
  assume "length xs = 3"
  then obtain a b c where "xs = [a, b, c]"
    by (cases xs; cases "tl xs"; cases "tl (tl xs)"; cases "tl (tl (tl xs))") auto
  then show ?thesis by simp
qed

lemma list_of_two: "length xs = 2 \<Longrightarrow> xs = [xs ! 0, xs ! 1]"
proof -
  assume "length xs = 2"
  then obtain a b where "xs = [a, b]"
    by (cases xs; cases "tl xs"; cases "tl (tl xs)") auto
  then show ?thesis by simp
qed

theorem release_error_chunks_and_batches_witness:
  "long_traceback \<noteq> [] \<and> three_chunk_traceback \<noteq> [] \<and> transport_ok fresh \<and>
   length (yield_code_chunks long_traceback) = 13 \<and>
   fst (release_error long_traceback ping_packet fresh) = Inr () \<and>
   map (\<lambda>(t, m). embeds_in m) (sent (snd (release_error long_traceback ping_packet fresh))) =
     [1, 10, 2] \<and>
   yield_code_chunks three_chunk_traceback =
     [''```py\<newline>'' @ replicate 1991 CHR ''a'' @ ''```'',
      ''```py\<newline>'' @ replicate 1991 CHR ''b'' @ ''```'',
      ''```py\<newline>c```''] \<and>
   sent (snd (release_error three_chunk_traceback ping_packet fresh)) =
     [(0, Send_embed
            ((primary_embed plain_bot ping_packet)
               \<lparr>embed_description := Some (''```py\<newline>'' @ replicate 1991 CHR ''a'' @ ''```'')\<rparr>)
            \<lparr>kw_username = None, kw_avatar_url = None, kw_content = ''<@349373972103561218>''\<rparr>),
      (0, Send_embeds
            [\<lparr>embed_title = None, embed_timestamp = None,
              embed_description = Some (''```py\<newline>'' @ replicate 1991 CHR ''b'' @ ''```''),
              embed_fields = [], embed_author = None\<rparr>,
             \<lparr>embed_title = None, embed_timestamp = None,
              embed_description = Some ''```py\<newline>c```'',
              embed_fields = [], embed_author = None\<rparr>]
            \<lparr>kw_username = None, kw_avatar_url = None, kw_content = ''<@349373972103561218>''\<rparr>)]"
proof -
  have s0: "sent fresh = []" "now fresh = 0" "bot fresh = plain_bot" "bot_user plain_bot = None"
    by (simp_all add: fresh_def new_manager_def plain_bot_def)
  have k: "2000 - cbs = 1991" by (simp add: cbs_eq)
  have len: "length long_traceback = 25000" by (simp add: long_traceback_def)
  have ne: "long_traceback \<noteq> []" using len by auto
  note t = release_error_chunks_and_batches [OF ne transport_ok_fresh, of ping_packet,
      unfolded Let_def]
  note c2 = conjunct2
  note t2 = t [THEN c2, THEN conjunct1]
  note t8 = t [THEN c2, THEN c2, THEN c2, THEN c2, THEN c2, THEN c2, THEN c2, THEN conjunct1]
  note t9 = t [THEN c2, THEN c2, THEN c2, THEN c2, THEN c2, THEN c2, THEN c2, THEN c2,
      THEN conjunct1]
  note t10 = t [THEN c2, THEN c2, THEN c2, THEN c2, THEN c2, THEN c2, THEN c2, THEN c2, THEN c2,
      THEN conjunct1]
  note t13 = t [THEN c2, THEN c2, THEN c2, THEN c2, THEN c2, THEN c2, THEN c2, THEN c2, THEN c2,
      THEN c2, THEN c2, THEN c2, THEN conjunct1]
  note t14 = t [THEN c2, THEN c2, THEN c2, THEN c2, THEN c2, THEN c2, THEN c2, THEN c2, THEN c2,
      THEN c2, THEN c2, THEN c2, THEN c2]
  let ?followers = "map (\<lambda>entry. \<lparr>embed_title = None, embed_timestamp = None,
        embed_description = Some entry, embed_fields = [],
        embed_author = (case bot_user (bot fresh) of
                          Some u \<Rightarrow> Some (client_str u, display_avatar_url u)
                        | None \<Rightarrow> None)\<rparr>)
         (tl (yield_code_chunks long_traceback))"
  let ?calls = "batches 10 ?followers"
  have n: "length (yield_code_chunks long_traceback) = 13"
    using t2 by (simp add: k len)
  have c: "length ?calls = 2" using t14 by (simp add: n)
  have first: "length (?calls ! 0) = 10" using t13 c by simp
  have "length (concat ?calls) = length ?followers" using t10 by simp
  then have total: "length (concat ?calls) = 12" by (simp add: n)
  from list_of_two [OF c] obtain c0 c1 where cs: "?calls = [c0, c1]" by blast
  have sizes: "length c0 = 10" "length c1 = 2"
    using first total unfolding cs by simp_all
  have m: "map (\<lambda>(t, m). embeds_in m)
      (sent (snd (release_error long_traceback ping_packet fresh))) = [1, 10, 2]"
    unfolding t9 cs by (simp add: s0 sizes)
  \<comment> \<open>three blocks, with their content\<close>
  have kw: "send_kwargs plain_bot =
      \<lparr>kw_username = None, kw_avatar_url = None, kw_content = ''<@349373972103561218>''\<rparr>"
    by (simp add: send_kwargs_def plain_bot_def)
  have len3: "length three_chunk_traceback = 3983" by (simp add: three_chunk_traceback_def)
  have ne3: "three_chunk_traceback \<noteq> []" using len3 by auto
  note u = release_error_chunks_and_batches [OF ne3 transport_ok_fresh, of ping_packet,
      unfolded Let_def]
  note u2 = u [THEN c2, THEN conjunct1]
  note u5 = u [THEN c2, THEN c2, THEN c2, THEN c2, THEN conjunct1]
  note u9 = u [THEN c2, THEN c2, THEN c2, THEN c2, THEN c2, THEN c2, THEN c2, THEN c2,
      THEN conjunct1]
  have n3: "length (yield_code_chunks three_chunk_traceback) = 3"
    using u2 by (simp add: k len3)
  have nth: "yield_code_chunks three_chunk_traceback ! n =
      ''```py\<newline>'' @ take 1991 (drop (n * 1991) three_chunk_traceback) @ ''```''" if "n < 3" for n
    using u5 that unfolding n3 k by blast
  have e0: "yield_code_chunks three_chunk_traceback ! 0 = ''```py\<newline>'' @ replicate 1991 CHR ''a'' @ ''```''"
    using nth [of 0] by (simp add: three_chunk_traceback_def)
  have e1: "yield_code_chunks three_chunk_traceback ! 1 = ''```py\<newline>'' @ replicate 1991 CHR ''b'' @ ''```''"
    using nth [of 1] by (simp add: three_chunk_traceback_def)
  have e2: "yield_code_chunks three_chunk_traceback ! 2 = ''```py\<newline>c```''"
    using nth [of 2] by (simp add: three_chunk_traceback_def)
  have ch: "yield_code_chunks three_chunk_traceback =
     [''```py\<newline>'' @ replicate 1991 CHR ''a'' @ ''```'',
      ''```py\<newline>'' @ replicate 1991 CHR ''b'' @ ''```'',
      ''```py\<newline>c```'']"
    using list_of_three [OF n3] unfolding e0 e1 e2 by simp
  have s3: "sent (snd (release_error three_chunk_traceback ping_packet fresh)) =
     [(0, Send_embed
            ((primary_embed plain_bot ping_packet)
               \<lparr>embed_description := Some (''```py\<newline>'' @ replicate 1991 CHR ''a'' @ ''```'')\<rparr>)
            \<lparr>kw_username = None, kw_avatar_url = None, kw_content = ''<@349373972103561218>''\<rparr>),
      (0, Send_embeds
            [\<lparr>embed_title = None, embed_timestamp = None,
              embed_description = Some (''```py\<newline>'' @ replicate 1991 CHR ''b'' @ ''```''),
              embed_fields = [], embed_author = None\<rparr>,
             \<lparr>embed_title = None, embed_timestamp = None,
              embed_description = Some ''```py\<newline>c```'',
              embed_fields = [], embed_author = None\<rparr>]
            \<lparr>kw_username = None, kw_avatar_url = None, kw_content = ''<@349373972103561218>''\<rparr>)]"
    unfolding u9 ch s0 kw by (simp add: batches_more batches_done)
  from ne ne3 transport_ok_fresh n t8 m ch s3 show ?thesis by blast
qed

subsection \<open>The metadata of a packet whose guild is unknown\<close>

lemma user_mention_nonempty: "user_mention a \<noteq> []"
  by (simp add: user_mention_def)

lemma metadata_unknown_guild:
  assumes "get_guild b (guild p) = None"
  shows "metadata b p =
     (''time'', format_dt (time p)) #
     (case author p of
        None \<Rightarrow> []
      | Some a \<Rightarrow> if a = 0 then [] else [(''author'', user_mention a)]) @
     (case command p of None \<Rightarrow> [] | Some c \<Rightarrow> [(''command'', qualified_name c)])"
  using assms
  by (simp add: metadata_def Let_def truthy_str_def user_mention_nonempty
      split: option.splits)

text \<open>
  C10. When the guild id of the packet resolves to no guild, the metadata holds the time,
  the author as the bare mention of the id (when the packet has a non-zero author id) and
  the command (when the packet has one), and nothing else: no guild, no channel, and no
  author upgraded to a member or user, whatever channels and users the bot knows.
\<close>

theorem unknown_guild_skips_channel_and_upgrade:
  assumes "get_guild b (guild p) = None"
  shows "metadata b p =
           (''time'', format_dt (time p)) #
           (case author p of
              None \<Rightarrow> []
            | Some a \<Rightarrow> if a = 0 then [] else [(''author'', user_mention a)]) @
           (case command p of None \<Rightarrow> [] | Some c \<Rightarrow> [(''command'', qualified_name c)]) \<and>
         map_of (metadata b p) ''guild'' = None \<and>
         map_of (metadata b p) ''channel'' = None \<and>
         map_of (metadata b p) ''author'' =
           (case author p of
              None \<Rightarrow> None
            | Some a \<Rightarrow> if a = 0 then None else Some (''<@'' @ str_int a @ ''>''))"
  unfolding metadata_unknown_guild [OF assms]
  by (simp add: user_mention_def split: option.splits)

lemma str_int_42: "str_int 42 = ''42''"
  by (simp add: str_int_def digits_small digits_large digit_char_def)

theorem unknown_guild_skips_channel_and_upgrade_witness:
  "get_guild lonely_bot (guild ping_packet) = None \<and>
   bot_users lonely_bot 42 = Some \<lparr>user_str = ''duck'', user_id = 42\<rparr> \<and>
   author ping_packet = Some 42 \<and> channel ping_packet = Some 9 \<and>
   metadata lonely_bot ping_packet =
     [(''time'', ''<t:0>''), (''author'', ''<@42>''), (''command'', ''ping'')]"
proof -
  have g: "get_guild lonely_bot (guild ping_packet) = None"
    by (simp add: get_guild_def lonely_bot_def plain_bot_def ping_packet_def make_packet_def
        ping_context_def id_or_none_def)
  have t: "format_dt 0 = ''<t:0>''"
    by (simp add: format_dt_def unix_seconds_def str_int_def digits_small digit_char_def)
  from unknown_guild_skips_channel_and_upgrade [OF g] g show ?thesis
    by (simp add: ping_packet_def make_packet_def ping_context_def packet_time_def
        user_mention_def str_int_42 t ping_def lonely_bot_def plain_bot_def)
qed

lemma primary_embed_fields:
  "embed_fields (primary_embed b p) = [(''Metadata'', metadata_value (metadata b p))]"
  by (simp add: primary_embed_def set_bot_author_def split: option.splits)

lemma delivery_first:
  assumes "traceback \<noteq> []"
  shows "delivery b traceback p \<noteq> []"
    and "hd (delivery b traceback p) =
           Send_embed ((primary_embed b p)\<lparr>embed_description := Some (hd (yield_code_chunks traceback))\<rparr>)
             (send_kwargs b)"
proof -
  have "yield_code_chunks traceback \<noteq> []"
    using assms chunks_from_nonempty [of traceback 1991]
    by (simp add: yield_code_chunks_def chunksize_def cbs_eq)
  then obtain first rest where "yield_code_chunks traceback = first # rest"
    by (cases "yield_code_chunks traceback") auto
  then show "delivery b traceback p \<noteq> []"
    and "hd (delivery b traceback p) =
           Send_embed ((primary_embed b p)\<lparr>embed_description := Some (hd (yield_code_chunks traceback))\<rparr>)
             (send_kwargs b)"
    by (simp_all add: delivery_def)
qed

text \<open>
  C9. For a packet whose guild id resolves to no guild, \<^verbatim>\<open>release_error\<close> on a non-empty
  traceback, over a transport that does not fail, returns without an exception; it has
  logged the error and then the warning about the unknown guild; the metadata has no
  guild entry; and the messages of the delivery have been sent, the first of them the
  embed whose only field is the rendering of that metadata.
\<close>

theorem unknown_guild_still_delivers:
  assumes "get_guild (bot s) (guild p) = None" and "traceback \<noteq> []" and "transport_ok s"
  shows "fst (release_error traceback p s) = Inr () \<and>
         logged (snd (release_error traceback p s)) =
           logged s @ [Error_releasing (exception p), Warning_unknown_guild (guild p)] \<and>
         map_of (metadata (bot s) p) ''guild'' = None \<and>
         sent (snd (release_error traceback p s)) =
           sent s @ map (Pair (now s)) (delivery (bot s) traceback p) \<and>
         delivery (bot s) traceback p \<noteq> [] \<and>
         hd (delivery (bot s) traceback p) =
           Send_embed
             ((primary_embed (bot s) p)\<lparr>embed_description := Some (hd (yield_code_chunks traceback))\<rparr>)
             (send_kwargs (bot s)) \<and>
         embed_fields (primary_embed (bot s) p) =
           [(''Metadata'', metadata_value (metadata (bot s) p))]"
proof -
  note r = release_error_ok [OF assms(3) assms(2), of p]
  have l: "logged (snd (release_error traceback p s)) =
           logged s @ [Error_releasing (exception p), Warning_unknown_guild (guild p)]"
    unfolding r(3) by (simp add: assms(1))
  have g: "map_of (metadata (bot s) p) ''guild'' = None"
    unfolding metadata_unknown_guild [OF assms(1)] by (simp split: option.splits)
  show ?thesis
    using r(1) l g r(2) delivery_first [OF assms(2), of "bot s" p] primary_embed_fields [of "bot s" p]
    by blast
qed

theorem unknown_guild_still_delivers_witness:
  "get_guild (bot fresh) (guild ping_packet) = None \<and>
   concat (format_exception boom) \<noteq> [] \<and> transport_ok fresh \<and>
   guild ping_packet = Some 7 \<and>
   fst (release_error (concat (format_exception boom)) ping_packet fresh) = Inr () \<and>
   logged (snd (release_error (concat (format_exception boom)) ping_packet fresh)) =
     [Error_releasing boom, Warning_unknown_guild (Some 7)] \<and>
   map_of (metadata (bot fresh) ping_packet) ''guild'' = None"
proof -
  have g: "get_guild (bot fresh) (guild ping_packet) = None"
    by (simp add: get_guild_def fresh_def new_manager_def plain_bot_def ping_packet_def
        make_packet_def ping_context_def id_or_none_def)
  have ne: "concat (format_exception boom) \<noteq> []" by (simp add: boom_def)
  have p: "guild ping_packet = Some 7" "exception ping_packet = boom"
    by (simp_all add: ping_packet_def make_packet_def ping_context_def id_or_none_def)
  have l: "logged fresh = []" by (simp add: fresh_def new_manager_def)
  from unknown_guild_still_delivers [OF g ne transport_ok_fresh] g ne transport_ok_fresh
  show ?thesis by (simp add: p l)
qed

section \<open>The aggregator\<close>

lemma stored_record_packet:
  "stored (s\<lparr>errors := record_packet tb p (errors s)\<rparr>) k =
     (if k = tb then stored s tb @ [p] else stored s k)"
  by (simp add: stored_def record_packet_def split: option.splits list.splits)

lemma critical_section_unchanged:
  "bot (snd (critical_section tb p s)) = bot s"
  "cooldown (snd (critical_section tb p s)) = cooldown s"
  "errors (snd (critical_section tb p s)) = errors s"
  "oce_settings (snd (critical_section tb p s)) = oce_settings s"
  "replies (snd (critical_section tb p s)) = replies s"
  "cwd (snd (critical_section tb p s)) = cwd s"
proof -
  have "\<And>s0. unchanged_by_sink s0 (snd (release_error tb p s0))"
    by (rule release_error_unchanged)
  then have a: "\<And>s0. bot (snd (release_error tb p s0)) = bot s0 \<and>
      cooldown (snd (release_error tb p s0)) = cooldown s0 \<and>
      errors (snd (release_error tb p s0)) = errors s0 \<and>
      oce_settings (snd (release_error tb p s0)) = oce_settings s0 \<and>
      replies (snd (release_error tb p s0)) = replies s0 \<and>
      cwd (snd (release_error tb p s0)) = cwd s0"
    by (simp add: unchanged_by_sink_def)
  show "bot (snd (critical_section tb p s)) = bot s"
    "cooldown (snd (critical_section tb p s)) = cooldown s"
    "errors (snd (critical_section tb p s)) = errors s"
    "oce_settings (snd (critical_section tb p s)) = oce_settings s"
    "replies (snd (critical_section tb p s)) = replies s"
    "cwd (snd (critical_section tb p s)) = cwd s"
    by (simp_all add: critical_section_def Let_def a sleep_def split: option.splits)
qed

lemma record_error_simps:
  "errors (record_error error ctx itm s) =
     record_packet (traceback_string (cwd s) error) (make_packet error ctx (now s)) (errors s)"
  "cwd (record_error error ctx itm s) = cwd s"
  "now (record_error error ctx itm s) = now s"
  "bot (record_error error ctx itm s) = bot s"
  "cooldown (record_error error ctx itm s) = cooldown s"
  "most_recent (record_error error ctx itm s) = most_recent s"
  "sent (record_error error ctx itm s) = sent s"
  "transport (record_error error ctx itm s) = transport s"
  "webhook_partial (record_error error ctx itm s) = webhook_partial s"
  by (simp_all add: record_error_def Let_def)

lemma stored_record_error:
  "stored (record_error error ctx itm s) k =
     (if k = traceback_string (cwd s) error
      then stored s k @ [make_packet error ctx (now s)] else stored s k)"
  using stored_record_packet [where s = s and tb = "traceback_string (cwd s) error"
      and p = "make_packet error ctx (now s)" and k = k]
  by (simp add: stored_def record_error_simps)

lemma stored_add_error:
  "stored (snd (add_error error ctx itm s)) k =
     (if k = traceback_string (cwd s) error
      then stored s k @ [make_packet error ctx (now s)] else stored s k)"
  using stored_record_error [of error ctx itm s k]
  by (simp add: stored_def add_error_def critical_section_unchanged)

text \<open>
  C3. As the code stands, the claim fails: \<^verbatim>\<open>add_error\<close> with an interaction stores a
  packet that holds the time and the exception only. Author, guild, channel and command
  stay unset, whatever the interaction carries.
\<close>

theorem interaction_fields_not_stored:
  "stored (snd (add_error error (Some (Interaction i)) itm s)) (traceback_string (cwd s) error) =
     stored s (traceback_string (cwd s) error) @
     [\<lparr>time = (case int_message_created_at i of Some t \<Rightarrow> t | None \<Rightarrow> now s),
       exception = error, author = None, guild = None, channel = None, command = None,
       item = None\<rparr>]"
  by (simp add: stored_add_error make_packet_def packet_time_def)

lemma interaction_fields_not_stored_example:
  "int_user_id ping_interaction = 42 \<and> int_guild_id ping_interaction = Some 7 \<and>
   int_channel_id ping_interaction = Some 9 \<and> int_command ping_interaction = Some ping \<and>
   stored (snd (add_error boom (Some (Interaction ping_interaction)) None fresh))
     (traceback_string (cwd fresh) boom) =
     [\<lparr>time = 0, exception = boom, author = None, guild = None, channel = None,
       command = None, item = None\<rparr>] \<and>
   stored (snd (add_error boom (Some (Context ping_context)) None fresh))
     (traceback_string (cwd fresh) boom) =
     [\<lparr>time = 0, exception = boom, author = Some 42, guild = Some 7, channel = Some 9,
       command = Some ping, item = None\<rparr>]"
  by (simp add: stored_add_error make_packet_def packet_time_def ping_interaction_def
      ping_context_def id_or_none_def)
     (simp add: stored_def fresh_def new_manager_def)

section \<open>The command error hook\<close>

text \<open>
  C6. A command error that is an instance of one of the ignored classes makes
  \<^verbatim>\<open>bot_command_error\<close> return with the state as it was: nothing is recorded, nothing is
  delivered, nothing is logged and no reply is sent to the context.
\<close>

theorem ignored_error_no_escalation:
  assumes "isinstance error (ignored_errors (oce_settings s))"
  shows "bot_command_error ctx error s = (Inr (), s)"
  using assms by (simp add: bot_command_error_def)

theorem ignored_error_no_escalation_witness:
  "ignored_errors (oce_settings fresh) = [''NotOwner'', ''CommandNotFound''] \<and>
   isinstance not_owner (ignored_errors (oce_settings fresh)) \<and>
   bot_command_error ping_context not_owner fresh = (Inr (), fresh)"
proof -
  have i: "ignored_errors (oce_settings fresh) = [''NotOwner'', ''CommandNotFound'']"
    by (simp add: fresh_def new_manager_def default_settings_def)
  have h: "isinstance not_owner (ignored_errors (oce_settings fresh))"
    unfolding i by (simp add: isinstance_def not_owner_def)
  from ignored_error_no_escalation [OF h, of ping_context] i h show ?thesis by simp
qed

text \<open>
  C5, as the code has it. A \<^verbatim>\<open>CommandInvokeError\<close> reaches the aggregator only past two
  guards: no local handler takes it (or the check for local handlers is off), and it is
  no instance of an ignored class. Then \<^verbatim>\<open>bot_command_error\<close> is the call of
  \<^verbatim>\<open>add_error\<close> with the original exception and the context: the packet appended under
  the traceback of the original holds the original, and no other key changes.
\<close>

theorem invoke_error_escalates_original:
  assumes "isinstance error [''CommandInvokeError'']" and "original error = Some cause"
    and "\<not> (check_for_local_error_handlers (oce_settings s) \<and> handled_locally ctx)"
    and "\<not> isinstance error (ignored_errors (oce_settings s))"
  shows "bot_command_error ctx error s = add_error cause (Some (Context ctx)) None s \<and>
         stored (snd (bot_command_error ctx error s)) (traceback_string (cwd s) cause) =
           stored s (traceback_string (cwd s) cause) @
           [make_packet cause (Some (Context ctx)) (now s)] \<and>
         exception (make_packet cause (Some (Context ctx)) (now s)) = cause \<and>
         (\<forall>k. k \<noteq> traceback_string (cwd s) cause \<longrightarrow>
              stored (snd (bot_command_error ctx error s)) k = stored s k)"
proof -
  have eq: "bot_command_error ctx error s = add_error cause (Some (Context ctx)) None s"
    using assms by (auto simp: bot_command_error_def)
  show ?thesis
    unfolding eq by (simp add: stored_add_error make_packet_def)
qed

theorem invoke_error_escalates_original_witness:
  "isinstance invoke_error [''CommandInvokeError''] \<and> original invoke_error = Some boom \<and>
   \<not> (check_for_local_error_handlers (oce_settings fresh) \<and> handled_locally ping_context) \<and>
   \<not> isinstance invoke_error (ignored_errors (oce_settings fresh)) \<and>
   traceback_string (cwd fresh) boom = ''ValueError: boom\<newline>'' \<and>
   traceback_string (cwd fresh) invoke_error \<noteq> traceback_string (cwd fresh) boom \<and>
   stored (snd (bot_command_error ping_context invoke_error fresh)) ''ValueError: boom\<newline>'' =
     [\<lparr>time = 0, exception = boom, author = Some 42, guild = Some 7, channel = Some 9,
       command = Some ping, item = None\<rparr>] \<and>
   stored (snd (bot_command_error ping_context invoke_error fresh))
     (traceback_string (cwd fresh) invoke_error) = []"
proof -
  have a: "isinstance invoke_error [''CommandInvokeError'']"
    by (simp add: isinstance_def invoke_error_def)
  have b: "original invoke_error = Some boom" by (simp add: invoke_error_def)
  have c: "\<not> (check_for_local_error_handlers (oce_settings fresh) \<and> handled_locally ping_context)"
    by (simp add: handled_locally_def ping_context_def ping_def)
  have d: "\<not> isinstance invoke_error (ignored_errors (oce_settings fresh))"
    by (simp add: isinstance_def invoke_error_def fresh_def new_manager_def default_settings_def)
  have t: "traceback_string (cwd fresh) boom = ''ValueError: boom\<newline>''"
    by (simp add: traceback_string_def py_replace_def boom_def fresh_def new_manager_def)
  have u: "traceback_string (cwd fresh) invoke_error \<noteq> traceback_string (cwd fresh) boom"
    by (simp add: traceback_string_def py_replace_def boom_def invoke_error_def fresh_def
        new_manager_def)
  have e: "stored fresh k = []" for k
    by (simp add: stored_def fresh_def new_manager_def)
  have n: "now fresh = 0" by (simp add: fresh_def new_manager_def)
  have p: "make_packet boom (Some (Context ping_context)) 0 =
      \<lparr>time = 0, exception = boom, author = Some 42, guild = Some 7, channel = Some 9,
       command = Some ping, item = None\<rparr>"
    by (simp add: make_packet_def packet_time_def ping_context_def id_or_none_def)
  note th = invoke_error_escalates_original [OF a b c d]
  have s1: "stored (snd (bot_command_error ping_context invoke_error fresh)) ''ValueError: boom\<newline>'' =
     [\<lparr>time = 0, exception = boom, author = Some 42, guild = Some 7, channel = Some 9,
       command = Some ping, item = None\<rparr>]"
    using th [THEN conjunct2, THEN conjunct1] by (simp add: t e n p)
  have s2: "stored (snd (bot_command_error ping_context invoke_error fresh))
     (traceback_string (cwd fresh) invoke_error) = []"
    using th [THEN conjunct2, THEN conjunct2, THEN conjunct2] u by (simp add: e)
  from a b c d t u s1 s2 show ?thesis by blast
qed

text \<open>
  The claim C5 as it is worded fails where a guard returns first: with a command that
  has its own error handler, the hook returns at once and the state is as before.
\<close>

theorem invoke_error_with_local_handler:
  "isinstance invoke_error [''CommandInvokeError''] \<and> original invoke_error = Some boom \<and>
   bot_command_error handled_context invoke_error fresh = (Inr (), fresh) \<and>
   add_error boom (Some (Context handled_context)) None fresh \<noteq> (Inr (), fresh) \<and>
   stored fresh (traceback_string (cwd fresh) boom) = []"
proof -
  have a: "isinstance invoke_error [''CommandInvokeError'']"
    by (simp add: isinstance_def invoke_error_def)
  have b: "original invoke_error = Some boom" by (simp add: invoke_error_def)
  have h: "check_for_local_error_handlers (oce_settings fresh) \<and> handled_locally handled_context"
    by (simp add: handled_locally_def handled_context_def ping_context_def ping_def fresh_def
        new_manager_def default_settings_def)
  have c: "bot_command_error handled_context invoke_error fresh = (Inr (), fresh)"
    using h by (simp add: bot_command_error_def)
  have e: "stored fresh k = []" for k
    by (simp add: stored_def fresh_def new_manager_def)
  have "stored (snd (add_error boom (Some (Context handled_context)) None fresh))
      (traceback_string (cwd fresh) boom) \<noteq> stored fresh (traceback_string (cwd fresh) boom)"
    by (simp add: stored_add_error)
  then have d: "add_error boom (Some (Context handled_context)) None fresh \<noteq> (Inr (), fresh)"
    by (metis snd_conv)
  from a b c d e show ?thesis by simp
qed

section \<open>The delivery scheduler\<close>

lemma delivery_times_append:
  "delivery_times (s\<lparr>sent := sent s @ ms\<rparr>) =
     delivery_times s @ map fst (filter (\<lambda>(t, m). is_primary m) ms)"
  by (simp add: delivery_times_def)

lemma delivery_primaries:
  assumes "traceback \<noteq> []"
  shows "map fst (filter (\<lambda>(t, m). is_primary m) (map (Pair clock) (delivery b traceback p))) = [clock]"
proof -
  have "yield_code_chunks traceback \<noteq> []"
    using assms chunks_from_nonempty [of traceback 1991]
    by (simp add: yield_code_chunks_def chunksize_def cbs_eq)
  then obtain first rest where "yield_code_chunks traceback = first # rest"
    by (cases "yield_code_chunks traceback") auto
  then show ?thesis
    by (simp add: delivery_def filter_map comp_def)
qed

lemma release_error_delivery_times:
  assumes "transport_ok s" and "traceback \<noteq> []"
  shows "delivery_times (snd (release_error traceback p s)) = delivery_times s @ [now s]"
  using release_error_ok(2) [OF assms, of p] delivery_primaries [OF assms(2), of "now s" "bot s" p]
  by (simp add: delivery_times_def)

lemma release_error_clock:
  "now (snd (release_error tb p s)) = now s"
  "most_recent (snd (release_error tb p s)) = most_recent s"
  "cooldown (snd (release_error tb p s)) = cooldown s"
  using release_error_unchanged [of s tb p] by (simp_all add: unchanged_by_sink_def)

lemma critical_section_ok:
  assumes "transport_ok s" and "tb \<noteq> []"
  shows "fst (critical_section tb p s) = Inr ()"
    and "now (snd (critical_section tb p s)) = release_clock p s"
    and "most_recent (snd (critical_section tb p s)) = Some (release_clock p s)"
    and "delivery_times (snd (critical_section tb p s)) = delivery_times s @ [release_clock p s]"
    and "transport_ok (snd (critical_section tb p s))"
proof -
  have ok: "transport_ok (s\<lparr>most_recent := m, now := n, logged := l\<rparr>)" for m n l
    using assms(1) by (simp add: transport_ok_def)
  have ok': "transport_ok (s\<lparr>most_recent := m\<rparr>)" for m
    using assms(1) by (simp add: transport_ok_def)
  have dt: "delivery_times (s\<lparr>most_recent := m, now := n, logged := l\<rparr>) = delivery_times s" for m n l
    by (simp add: delivery_times_def)
  have dt': "delivery_times (s\<lparr>most_recent := m\<rparr>) = delivery_times s" for m
    by (simp add: delivery_times_def)
  have reorder: "s\<lparr>logged := l, now := n, most_recent := m\<rparr> = s\<lparr>most_recent := m, now := n, logged := l\<rparr>" for m n l
    by simp
  show "fst (critical_section tb p s) = Inr ()"
    by (simp add: critical_section_def Let_def sleep_def reorder
        release_error_ok(1) [OF ok assms(2)] release_error_ok(1) [OF ok' assms(2)] split: option.splits)
  show "now (snd (critical_section tb p s)) = release_clock p s"
    by (simp add: critical_section_def Let_def sleep_def release_clock_def release_error_clock
        split: option.splits)
  show "most_recent (snd (critical_section tb p s)) = Some (release_clock p s)"
    by (simp add: critical_section_def Let_def sleep_def release_clock_def release_error_clock
        split: option.splits)
  show "delivery_times (snd (critical_section tb p s)) = delivery_times s @ [release_clock p s]"
    by (simp add: critical_section_def Let_def sleep_def release_clock_def reorder
        release_error_delivery_times [OF ok assms(2)] release_error_delivery_times [OF ok' assms(2)]
        dt dt' split: option.splits)
  show "transport_ok (snd (critical_section tb p s))"
    by (simp add: critical_section_def Let_def sleep_def reorder
        release_error_ok(4) [OF ok assms(2)] release_error_ok(4) [OF ok' assms(2)] split: option.splits)
qed

lemma add_error_ok:
  assumes "transport_ok s" and "traceback_string (cwd s) error \<noteq> []"
  shows "fst (add_error error ctx itm s) = Inr ()"
    and "now (snd (add_error error ctx itm s)) = release_clock (make_packet error ctx (now s)) s"
    and "most_recent (snd (add_error error ctx itm s)) =
           Some (release_clock (make_packet error ctx (now s)) s)"
    and "delivery_times (snd (add_error error ctx itm s)) =
           delivery_times s @ [release_clock (make_packet error ctx (now s)) s]"
    and "transport_ok (snd (add_error error ctx itm s))"
    and "cooldown (snd (add_error error ctx itm s)) = cooldown s"
    and "cwd (snd (add_error error ctx itm s)) = cwd s"
proof -
  let ?s1 = "record_error error ctx itm s"
  have ok: "transport_ok ?s1" using assms(1) by (simp add: transport_ok_def record_error_simps)
  have rc: "release_clock p ?s1 = release_clock p s" for p
    by (simp add: release_clock_def record_error_simps split: option.splits)
  have dt: "delivery_times ?s1 = delivery_times s"
    by (simp add: delivery_times_def record_error_simps)
  note cs = critical_section_ok [OF ok assms(2)]
  show "fst (add_error error ctx itm s) = Inr ()"
    and "now (snd (add_error error ctx itm s)) = release_clock (make_packet error ctx (now s)) s"
    and "most_recent (snd (add_error error ctx itm s)) =
           Some (release_clock (make_packet error ctx (now s)) s)"
    and "delivery_times (snd (add_error error ctx itm s)) =
           delivery_times s @ [release_clock (make_packet error ctx (now s)) s]"
    and "transport_ok (snd (add_error error ctx itm s))"
    and "cooldown (snd (add_error error ctx itm s)) = cooldown s"
    and "cwd (snd (add_error error ctx itm s)) = cwd s"
    using cs by (simp_all add: add_error_def rc dt critical_section_unchanged record_error_simps)
qed

lemma boom_traceback: "traceback_string (cwd fresh) boom = ''ValueError: boom\<newline>''"
  by (simp add: traceback_string_def py_replace_def boom_def fresh_def new_manager_def)

lemma later_simps:
  "now (later d s) = now s + d" "most_recent (later d s) = most_recent s"
  "cooldown (later d s) = cooldown s" "cwd (later d s) = cwd s"
  "transport_ok (later d s) = transport_ok s" "delivery_times (later d s) = delivery_times s"
  by (simp_all add: later_def transport_ok_def delivery_times_def)

text \<open>
  C2. As the code stands, the claim fails. With a cooldown of 5 seconds and no earlier
  send, an error reported at clock 0 is delivered at 0; an error reported one second
  later finds \<open>time_between\<close> of one second, sleeps for that one second, and is delivered at
  2 seconds, three seconds before the cooldown has passed.
\<close>

theorem second_error_waits_elapsed_not_cooldown:
  "cooldown fresh = seconds 5 \<and> most_recent fresh = None \<and> now fresh = 0 \<and>
   delivery_times (snd (add_error boom None None fresh)) = [0] \<and>
   delivery_times
     (snd (add_error boom None None (later (seconds 1) (snd (add_error boom None None fresh))))) =
     [0, seconds 2]"
proof -
  let ?s1 = "snd (add_error boom None None fresh)"
  let ?s2 = "later (seconds 1) ?s1"
  have f: "cooldown fresh = seconds 5" "most_recent fresh = None" "now fresh = 0"
    "delivery_times fresh = []"
    by (simp_all add: fresh_def new_manager_def delivery_times_def)
  have ne: "traceback_string (cwd fresh) boom \<noteq> []" by (simp add: boom_traceback)
  note a = add_error_ok [OF transport_ok_fresh ne, of None None]
  have r1: "release_clock p fresh = 0" for p
    by (simp add: release_clock_def f)
  have s1: "now ?s1 = 0" "most_recent ?s1 = Some 0" "delivery_times ?s1 = [0]"
    "transport_ok ?s1" "cooldown ?s1 = seconds 5" "cwd ?s1 = cwd fresh"
    using a by (simp_all add: r1 f)
  have ok2: "transport_ok ?s2" using s1(4) by (simp add: later_simps)
  have ne2: "traceback_string (cwd ?s2) boom \<noteq> []"
    using ne by (simp add: later_simps s1)
  note b = add_error_ok [OF ok2 ne2, of None None]
  have n2: "now ?s2 = seconds 1" by (simp add: later_simps s1)
  have r2: "release_clock (make_packet boom None (seconds 1)) ?s2 = seconds 2"
    by (simp add: release_clock_def later_simps s1 make_packet_def packet_time_def seconds_def)
  have "delivery_times (snd (add_error boom None None ?s2)) = [0, seconds 2]"
    using b(4) unfolding n2 r2 by (simp add: later_simps s1)
  with f s1 show ?thesis by simp
qed

subsection \<open>Concurrent callers\<close>

lemma deliver_ok:
  assumes "transport_ok (st c)" and "tb \<noteq> []"
  shows "delivery_times (st (deliver tb p c)) = delivery_times (st c) @ [now (st c)]"
    and "most_recent (st (deliver tb p c)) = Some (now (st c))"
    and "transport_ok (st (deliver tb p c))"
proof -
  let ?s = "(st c)\<lparr>most_recent := Some (now (st c))\<rparr>"
  have ok: "transport_ok ?s" using assms(1) by (simp add: transport_ok_def)
  have dt: "delivery_times ?s = delivery_times (st c)" by (simp add: delivery_times_def)
  show "delivery_times (st (deliver tb p c)) = delivery_times (st c) @ [now (st c)]"
    using release_error_delivery_times [OF ok assms(2), of p] by (simp add: deliver_def dt)
  show "most_recent (st (deliver tb p c)) = Some (now (st c))"
    by (simp add: deliver_def release_error_clock)
  show "transport_ok (st (deliver tb p c))"
    using release_error_ok(4) [OF ok assms(2), of p] by (simp add: deliver_def)
qed

lemma deliver_simps:
  "now (st (deliver tb p c)) = now (st c)" "cooldown (st (deliver tb p c)) = cooldown (st c)"
  "cwd (st (deliver tb p c)) = cwd (st c)" "errors (st (deliver tb p c)) = errors (st c)"
  "sleeping (deliver tb p c) = None" "waiting (deliver tb p c) = waiting c"
  using release_error_unchanged [of "(st c)\<lparr>most_recent := Some (now (st c))\<rparr>" tb p]
  by (simp_all add: deliver_def unchanged_by_sink_def)

lemma enter_simps:
  "now (st (enter tb p c)) = now (st c)" "cooldown (st (enter tb p c)) = cooldown (st c)"
  "cwd (st (enter tb p c)) = cwd (st c)" "errors (st (enter tb p c)) = errors (st c)"
  "waiting (enter tb p c) = waiting c"
  by (simp_all add: enter_def Let_def deliver_simps split: option.splits)

lemma call_simps:
  "now (st (call error ctx itm c)) = now (st c)"
  "cooldown (st (call error ctx itm c)) = cooldown (st c)"
  "cwd (st (call error ctx itm c)) = cwd (st c)"
  "errors (st (call error ctx itm c)) =
     record_packet (traceback_string (cwd (st c)) error) (make_packet error ctx (now (st c)))
       (errors (st c))"
  by (simp_all add: call_def Let_def enter_simps record_error_simps)

lemma bare_packet_time: "time bare_packet = 0"
  by (simp add: bare_packet_def make_packet_def packet_time_def)

text \<open>
  C1. As the code stands, the claim fails. Two tasks call \<^verbatim>\<open>add_error\<close> at the same clock
  value 0 with a cooldown of 5 seconds. The first finds no earlier send and delivers.
  The second takes the lock, computes \<open>time_between = 0\<close>, sleeps for zero seconds and
  delivers: both deliveries reach the webhook at clock 0, for packets with the same
  time.
\<close>

theorem burst_is_not_spaced:
  "run (idle fresh) [Called boom bare_packet, Called boom bare_packet, Woken] burst \<and>
   cooldown (st burst) = seconds 5 \<and> time bare_packet = 0 \<and>
   delivery_times (st burst) = [0, 0]"
proof -
  let ?tb = "''ValueError: boom\<newline>''"
  let ?c0 = "idle fresh"
  let ?c1 = "call boom None None ?c0"
  let ?c2 = "call boom None None ?c1"
  have f: "cooldown fresh = seconds 5" "most_recent fresh = None" "now fresh = 0"
    "delivery_times fresh = []" "cwd fresh = ''/home/bot''"
    by (simp_all add: fresh_def new_manager_def delivery_times_def)
  have pk: "make_packet boom None 0 = bare_packet" by (simp add: bare_packet_def)
  \<comment> \<open>the first call delivers at once\<close>
  let ?r0 = "?c0\<lparr>st := record_error boom None None fresh\<rparr>"
  have ok0: "transport_ok (st ?r0)"
    using transport_ok_fresh by (simp add: transport_ok_def record_error_simps)
  have dt0: "delivery_times (st ?r0) = []"
    by (simp add: delivery_times_def record_error_simps fresh_def new_manager_def)
  have c1: "?c1 = deliver ?tb bare_packet ?r0"
    using boom_traceback
    by (simp add: call_def idle_def Let_def enter_def record_error_simps f pk)
  have n1: "now (st ?c1) = 0" "cooldown (st ?c1) = seconds 5" "cwd (st ?c1) = cwd fresh"
    by (simp_all add: call_simps idle_def f)
  have s1: "most_recent (st ?c1) = Some 0" "delivery_times (st ?c1) = [0]"
    "transport_ok (st ?c1)" "sleeping ?c1 = None" "waiting ?c1 = []"
    unfolding c1
    using deliver_ok [OF ok0, of ?tb bare_packet] dt0
    by (simp_all add: deliver_simps idle_def record_error_simps f)
  \<comment> \<open>the second call finds the send of the first and goes to sleep until clock 0\<close>
  let ?r1 = "?c1\<lparr>st := record_error boom None None (st ?c1)\<rparr>"
  have c2: "?c2 =
      ?r1\<lparr>st := (st ?r1)\<lparr>logged := logged (st ?r1) @ [Debug_waiting 0]\<rparr>,
           sleeping := Some (?tb, bare_packet, 0)\<rparr>"
    using boom_traceback
    by (subst call_def)
       (simp add: Let_def enter_def record_error_simps s1 n1 pk bare_packet_time seconds_def)
  have s2: "sleeping ?c2 = Some (?tb, bare_packet, 0)" "now (st ?c2) = 0"
    "cooldown (st ?c2) = seconds 5"
    by (simp_all add: c2 record_error_simps n1)
  have dt2: "delivery_times (st ?c2) = [0]" "transport_ok (st ?c2)"
    using s1(2,3)
    by (simp_all add: c2 delivery_times_def transport_ok_def record_error_simps)
  \<comment> \<open>its sleep is over at once\<close>
  have b: "burst = deliver ?tb bare_packet ?c2" by (simp add: burst_def)
  have steps: "run ?c0 [Called boom bare_packet, Called boom bare_packet, Woken] burst"
  proof -
    have "step ?c0 (Called boom bare_packet) ?c1"
      using called [of ?c0 boom None None] by (simp add: idle_def f pk)
    then have 1: "run ?c0 [Called boom bare_packet] ?c1"
      using run_snoc [OF run_nil] by fastforce
    have "step ?c1 (Called boom bare_packet) ?c2"
      using called [of ?c1 boom None None] by (simp add: n1 pk)
    with 1 have 2: "run ?c0 [Called boom bare_packet, Called boom bare_packet] ?c2"
      using run_snoc by fastforce
    have "step ?c2 Woken burst"
      unfolding b using woken [OF s2(1)] by (simp add: s2)
    with 2 show ?thesis using run_snoc by fastforce
  qed
  have "delivery_times (st burst) = [0, 0]"
    unfolding b using deliver_ok(1) [OF dt2(2), of ?tb bare_packet] by (simp add: dt2 s2)
  moreover have "cooldown (st burst) = seconds 5"
    unfolding b by (simp add: deliver_simps s2)
  ultimately show ?thesis using steps bare_packet_time by simp
qed

subsection \<open>What the steps do to the aggregator\<close>

lemma stored_after_record:
  assumes "errors s' = record_packet tb p (errors s)"
  shows "stored s' k = stored s k @ (if tb = k then [p] else [])"
    and "(errors s' k = None) = (errors s k = None \<and> tb \<noteq> k)"
  using assms
  by (auto simp: stored_def record_packet_def split: option.splits list.splits)

lemma stored_same:
  assumes "errors s' = errors s"
  shows "stored s' k = stored s k" and "(errors s' k = None) = (errors s k = None)"
  using assms by (simp_all add: stored_def)

lemma step_aggregator:
  assumes "step c ev c'"
  shows "cwd (st c') = cwd (st c)"
    and "stored (st c') k = stored (st c) k @ filed_under (cwd (st c)) k ev"
    and "(errors (st c') k = None) =
           (errors (st c) k = None \<and> filed_under (cwd (st c)) k ev = [])"
  using assms
proof (induction rule: step.induct)
  case (tick d c)
  {
    case 1 show ?case by (simp add: advance_def)
  next
    case 2 show ?case by (simp add: advance_def stored_def)
  next
    case 3 show ?case by (simp add: advance_def)
  }
next
  case (called c error ctx itm)
  {
    case 1 show ?case by (simp add: call_simps)
  next
    case 2 show ?case
      using stored_after_record(1) [OF call_simps(4), of error ctx itm c k]
      by (simp add: traceback_string_def)
  next
    case 3 show ?case
      using stored_after_record(2) [OF call_simps(4), of error ctx itm c k]
      by (auto simp: traceback_string_def)
  }
next
  case (granted c tb p rest)
  {
    case 1 show ?case by (simp add: enter_simps)
  next
    case 2 show ?case by (simp add: stored_def enter_simps)
  next
    case 3 show ?case by (simp add: enter_simps)
  }
next
  case (woken c tb p due)
  {
    case 1 show ?case by (simp add: deliver_simps)
  next
    case 2 show ?case by (simp add: stored_def deliver_simps)
  next
    case 3 show ?case by (simp add: deliver_simps)
  }
qed

lemma recorded_snoc: "recorded dir k (evs @ [ev]) = recorded dir k evs @ filed_under dir k ev"
  by (simp add: recorded_def)

lemma recorded_member:
  "Called error p \<in> set evs \<Longrightarrow>
   p \<in> set (recorded dir (py_replace (concat (format_exception error)) dir ''CWD'') evs)"
  by (induction evs) (auto simp: recorded_def)

lemma run_aggregator:
  assumes "run c evs c'"
  shows "stored (st c') k = stored (st c) k @ recorded (cwd (st c)) k evs \<and>
         (errors (st c') k = None) =
           (errors (st c) k = None \<and> recorded (cwd (st c)) k evs = []) \<and>
         cwd (st c') = cwd (st c)"
  using assms
proof (induction rule: run.induct)
  case (run_nil c)
  show ?case by (simp add: recorded_def)
next
  case (run_snoc c evs c' ev c'')
  note s = step_aggregator [OF run_snoc.hyps(2)]
  from run_snoc.IH s show ?case
    by (simp add: recorded_snoc)
qed

text \<open>
  C4. In every run of the system, whatever the interleaving of calls, clock ticks,
  grants of the lock and deliveries: the list under a key \<open>k\<close> of \<^verbatim>\<open>errors\<close> is the list it
  was at the start, followed by the packets of exactly those calls whose rendered
  traceback, with every occurrence of the working directory replaced by the text
  \<^verbatim>\<open>CWD\<close>, is \<open>k\<close>, in the order of the calls. Nothing is removed or reordered, a key is
  missing only if it was missing and no such call was made, and the packet of every call
  is in the list under the replaced traceback of its error: two errors whose tracebacks
  are the same text after the replacement share one list.
\<close>

theorem same_traceback_same_key_in_order:
  assumes "run c evs c'"
  shows "stored (st c') k = stored (st c) k @ recorded (cwd (st c)) k evs \<and>
         (errors (st c') k = None) =
           (errors (st c) k = None \<and> recorded (cwd (st c)) k evs = []) \<and>
         cwd (st c') = cwd (st c) \<and>
         (\<forall>error p. Called error p \<in> set evs \<longrightarrow>
            p \<in> set (stored (st c')
                      (py_replace (concat (format_exception error)) (cwd (st c)) ''CWD''))) \<and>
         (\<forall>e1 p1 e2 p2.
            Called e1 p1 \<in> set evs \<and> Called e2 p2 \<in> set evs \<and>
            py_replace (concat (format_exception e1)) (cwd (st c)) ''CWD'' =
            py_replace (concat (format_exception e2)) (cwd (st c)) ''CWD'' \<longrightarrow>
            (\<exists>k. p1 \<in> set (stored (st c') k) \<and> p2 \<in> set (stored (st c') k)))"
proof -
  have member: "p \<in> set (stored (st c')
      (py_replace (concat (format_exception error)) (cwd (st c)) ''CWD''))"
    if "Called error p \<in> set evs" for error p
    using run_aggregator [OF assms,
        of "py_replace (concat (format_exception error)) (cwd (st c)) ''CWD''"]
      recorded_member [OF that, of "cwd (st c)"]
    by simp
  have together: "\<exists>k. p1 \<in> set (stored (st c') k) \<and> p2 \<in> set (stored (st c') k)"
    if "Called e1 p1 \<in> set evs" and "Called e2 p2 \<in> set evs"
      and "py_replace (concat (format_exception e1)) (cwd (st c)) ''CWD'' =
           py_replace (concat (format_exception e2)) (cwd (st c)) ''CWD''"
    for e1 p1 e2 p2
    using member [OF that(1)] member [OF that(2)] that(3) by auto
  from run_aggregator [OF assms, of k] member together show ?thesis
    by blast
qed

lemma crash_renderings:
  "concat (format_exception crash) \<noteq> concat (format_exception crash_relative)"
  "py_replace (concat (format_exception crash)) ''/home/bot'' ''CWD'' = crash_key"
  "py_replace (concat (format_exception crash_relative)) ''/home/bot'' ''CWD'' = crash_key"
  "concat (format_exception crash) \<noteq> crash_key"
  by (simp_all add: crash_def crash_relative_def crash_at_def crash_key_def quoted_def
      py_replace_def)

lemma not_owner_rendering:
  "py_replace (concat (format_exception not_owner)) ''/home/bot'' ''CWD'' =
     ''discord.ext.commands.errors.NotOwner: You do not own this bot.\<newline>''"
  by (simp add: not_owner_def py_replace_def)

theorem same_traceback_same_key_in_order_witness:
  "run (idle fresh)
     [Called crash (make_packet crash None 0),
      Called crash_relative (make_packet crash_relative None 0),
      Called not_owner owner_packet,
      Called crash (make_packet crash None 0)]
     four_calls \<and>
   concat (format_exception crash) \<noteq> concat (format_exception crash_relative) \<and>
   stored (st four_calls) crash_key =
     [make_packet crash None 0, make_packet crash_relative None 0, make_packet crash None 0] \<and>
   stored (st four_calls) ''discord.ext.commands.errors.NotOwner: You do not own this bot.\<newline>'' =
     [owner_packet] \<and>
   errors (st four_calls) (concat (format_exception crash)) = None"
proof -
  let ?c0 = "idle fresh"
  let ?c1 = "call crash None None ?c0"
  let ?c2 = "call crash_relative None None ?c1"
  let ?c3 = "call not_owner (Some (Context ping_context)) None ?c2"
  have n: "now (st ?c0) = 0" "now (st ?c1) = 0" "now (st ?c2) = 0" "now (st ?c3) = 0"
    by (simp_all add: call_simps idle_def fresh_def new_manager_def)
  have t: "four_calls = call crash None None ?c3" by (simp add: four_calls_def)
  have "step ?c0 (Called crash (make_packet crash None 0)) ?c1"
    using called [of ?c0 crash None None] by (simp only: n)
  then have 1: "run ?c0 [Called crash (make_packet crash None 0)] ?c1"
    using run_snoc [OF run_nil] by fastforce
  have "step ?c1 (Called crash_relative (make_packet crash_relative None 0)) ?c2"
    using called [of ?c1 crash_relative None None] by (simp only: n)
  with 1 have 2: "run ?c0
      [Called crash (make_packet crash None 0),
       Called crash_relative (make_packet crash_relative None 0)] ?c2"
    using run_snoc by fastforce
  have "step ?c2 (Called not_owner owner_packet) ?c3"
    using called [of ?c2 not_owner "Some (Context ping_context)" None]
    by (simp only: n owner_packet_def)
  with 2 have 3: "run ?c0
      [Called crash (make_packet crash None 0),
       Called crash_relative (make_packet crash_relative None 0),
       Called not_owner owner_packet] ?c3"
    using run_snoc by fastforce
  have "step ?c3 (Called crash (make_packet crash None 0)) four_calls"
    unfolding t using called [of ?c3 crash None None] by (simp only: n)
  with 3 have r: "run ?c0
      [Called crash (make_packet crash None 0),
       Called crash_relative (make_packet crash_relative None 0),
       Called not_owner owner_packet,
       Called crash (make_packet crash None 0)] four_calls"
    using run_snoc by fastforce
  have e: "stored (st ?c0) k = []" "errors (st ?c0) k = None" "cwd (st ?c0) = ''/home/bot''" for k
    by (simp_all add: stored_def idle_def fresh_def new_manager_def)
  have key: "crash_key \<noteq> ''discord.ext.commands.errors.NotOwner: You do not own this bot.\<newline>''"
    by (simp add: crash_key_def)
  have a: "stored (st four_calls) crash_key =
     [make_packet crash None 0, make_packet crash_relative None 0, make_packet crash None 0]"
    using same_traceback_same_key_in_order [OF r, of crash_key] key
    by (simp add: e recorded_def crash_renderings not_owner_rendering)
  have b: "stored (st four_calls)
       ''discord.ext.commands.errors.NotOwner: You do not own this bot.\<newline>'' = [owner_packet]"
    using same_traceback_same_key_in_order [OF r,
        of "''discord.ext.commands.errors.NotOwner: You do not own this bot.\<newline>''"] key
    by (simp add: e recorded_def crash_renderings not_owner_rendering)
  have raw_owner: "concat (format_exception crash) \<noteq>
      ''discord.ext.commands.errors.NotOwner: You do not own this bot.\<newline>''"
    by (simp add: crash_def crash_at_def)
  have c: "errors (st four_calls) (concat (format_exception crash)) = None"
    using same_traceback_same_key_in_order [OF r, of "concat (format_exception crash)"]
      crash_renderings(4) raw_owner
    by (simp add: e recorded_def crash_renderings(2,3) not_owner_rendering)
  from r a b c crash_renderings(1) show ?thesis by blast
qed

section \<open>A transport that fails\<close>

lemma outcome_sound_pure: "transport s' = script \<Longrightarrow> outcome_sound (Inr (), s') script"
  unfolding outcome_sound_def by (rule exI [of _ 0]) simp

lemma outcome_sound_other: "transport s' = script \<Longrightarrow> e \<noteq> HTTPException \<Longrightarrow> outcome_sound (Inl e, s') script"
  unfolding outcome_sound_def by (rule exI [of _ 0]) simp

lemma request_script:
  "transport (snd (request s)) = drop 1 (transport s)"
  "fst (request s) \<Longrightarrow> list_all (\<lambda>ok. ok) (take 1 (transport s))"
  by (auto simp: request_def split: list.splits)

lemma webhook_send_sound: "outcome_sound (webhook_send m s) (transport s)"
  unfolding outcome_sound_def
  using request_script [of s]
  by (intro exI [of _ 1]) (auto simp: webhook_send_def split: prod.splits bool.splits)

lemma webhook_fetch_sound: "outcome_sound (webhook_fetch s) (transport s)"
  unfolding outcome_sound_def
  using request_script [of s]
  by (intro exI [of _ 1]) (auto simp: webhook_fetch_def split: prod.splits bool.splits)

lemma ensure_webhook_sound: "outcome_sound (ensure_webhook s) (transport s)"
  by (simp add: ensure_webhook_def webhook_fetch_sound outcome_sound_pure)

lemma and_then_sound:
  assumes "outcome_sound r script" and "\<And>s1. outcome_sound (f s1) (transport s1)"
  shows "outcome_sound (and_then r f) script"
proof (cases r)
  case (Pair o1 s1)
  show ?thesis
  proof (cases o1)
    case (Inl e)
    with Pair assms(1) show ?thesis by (simp add: and_then_def)
  next
    case (Inr u)
    from assms(1) Pair Inr obtain k where k: "transport s1 = drop k script"
      "list_all (\<lambda>ok. ok) (take k script)"
      by (auto simp: outcome_sound_def)
    from assms(2) [of s1] obtain j where j: "transport (snd (f s1)) = drop j (transport s1)"
      "fst (f s1) \<noteq> Inl HTTPException \<longrightarrow> list_all (\<lambda>ok. ok) (take j (transport s1))"
      by (auto simp: outcome_sound_def)
    have "transport (snd (f s1)) = drop (k + j) script"
      using j(1) k(1) by (simp add: add.commute)
    moreover have "fst (f s1) \<noteq> Inl HTTPException \<longrightarrow> list_all (\<lambda>ok. ok) (take (k + j) script)"
      using j(2) k by (simp add: take_add)
    ultimately have "outcome_sound (f s1) script"
      unfolding outcome_sound_def by blast
    with Pair Inr show ?thesis by (simp add: and_then_def)
  qed
qed

lemma send_chunks_sound: "outcome_sound (send_chunks cs es s) (transport s)"
proof (induction cs arbitrary: es s)
  case Nil
  show ?case by (simp add: webhook_send_sound outcome_sound_pure)
next
  case (Cons c cs)
  show ?case
    by (simp add: Let_def Cons.IH and_then_sound webhook_send_sound)
qed

lemma release_error_sound: "outcome_sound (release_error tb p s) (transport s)"
proof -
  let ?s0 = "s\<lparr>logged := logged s @ [Error_releasing (exception p)]\<rparr>"
  have t0: "transport ?s0 = transport s" by simp
  have w: "transport (warn_unknown_guild p s1) = transport s1" for s1
    by (simp add: warn_unknown_guild_def split: option.splits)
  have inner: "outcome_sound
      (case yield_code_chunks tb of
         [] \<Rightarrow> (Inl IndexError, s2)
       | first # code_chunks \<Rightarrow>
           and_then
             (webhook_send
                (Send_embed ((primary_embed (bot s2) p)\<lparr>embed_description := Some first\<rparr>)
                   (send_kwargs (bot s2))) s2)
             (send_chunks code_chunks [])) (transport s2)" for s2
    by (cases "yield_code_chunks tb")
       (simp_all add: outcome_sound_other and_then_sound webhook_send_sound send_chunks_sound)
  have mid: "outcome_sound
      (and_then (ensure_webhook (warn_unknown_guild p s1))
         (\<lambda>s2. case yield_code_chunks tb of
                  [] \<Rightarrow> (Inl IndexError, s2)
                | first # code_chunks \<Rightarrow>
                    and_then
                      (webhook_send
                         (Send_embed ((primary_embed (bot s2) p)\<lparr>embed_description := Some first\<rparr>)
                            (send_kwargs (bot s2))) s2)
                      (send_chunks code_chunks []))) (transport s1)" for s1
  proof (rule and_then_sound)
    show "outcome_sound (ensure_webhook (warn_unknown_guild p s1)) (transport s1)"
      using ensure_webhook_sound [of "warn_unknown_guild p s1"] by (simp add: w)
  next
    fix s2
    show "outcome_sound
      (case yield_code_chunks tb of
         [] \<Rightarrow> (Inl IndexError, s2)
       | first # code_chunks \<Rightarrow>
           and_then
             (webhook_send
                (Send_embed ((primary_embed (bot s2) p)\<lparr>embed_description := Some first\<rparr>)
                   (send_kwargs (bot s2))) s2)
             (send_chunks code_chunks [])) (transport s2)"
      by (rule inner)
  qed
  show ?thesis
    unfolding release_error_def
  proof (rule and_then_sound)
    show "outcome_sound (ensure_webhook ?s0) (transport s)"
      using ensure_webhook_sound [of ?s0] by simp
  next
    fix s1
    show "outcome_sound
      (and_then (ensure_webhook (warn_unknown_guild p s1))
         (\<lambda>s2. case yield_code_chunks tb of
                  [] \<Rightarrow> (Inl IndexError, s2)
                | first # code_chunks \<Rightarrow>
                    and_then
                      (webhook_send
                         (Send_embed ((primary_embed (bot s2) p)\<lparr>embed_description := Some first\<rparr>)
                            (send_kwargs (bot s2))) s2)
                      (send_chunks code_chunks []))) (transport s1)"
      by (rule mid)
  qed
qed

lemma critical_section_sound: "outcome_sound (critical_section tb p s) (transport s)"
proof -
  have "outcome_sound (release_error tb p s') (transport s)" if "transport s' = transport s" for s'
    using release_error_sound [of tb p s'] that by simp
  then show ?thesis
    by (simp add: critical_section_def Let_def sleep_def split: option.splits)
qed

lemma add_error_sound: "outcome_sound (add_error error ctx itm s) (transport s)"
  using critical_section_sound [of "traceback_string (cwd s) error" "make_packet error ctx (now s)"
      "record_error error ctx itm s"]
  by (simp add: add_error_def record_error_simps)

lemma raised_propagates:
  assumes "outcome_sound r (transport s)" and "raised_between s (snd r)"
  shows "fst r = Inl HTTPException"
proof (rule ccontr)
  assume n: "fst r \<noteq> Inl HTTPException"
  from assms(1) n obtain k where k: "transport (snd r) = drop k (transport s)"
    "list_all (\<lambda>ok. ok) (take k (transport s))"
    by (auto simp: outcome_sound_def)
  have "consumed s (snd r) = take k (transport s)"
  proof (cases "k \<le> length (transport s)")
    case True
    then show ?thesis by (simp add: consumed_def k(1))
  next
    case False
    then show ?thesis by (simp add: consumed_def k(1))
  qed
  with k(2) assms(2) show False
    by (auto simp: raised_between_def list_all_iff)
qed

text \<open>
  C8. If one of the HTTP requests made during \<^verbatim>\<open>add_error\<close> raises, \<^verbatim>\<open>add_error\<close> ends
  with that exception, and in the state it leaves, the packet of this call is the last
  one of the list under its traceback: the entry is not taken back.
\<close>

theorem transport_failure_propagates_entry_stays:
  assumes "raised_between s (snd (add_error error ctx itm s))"
  shows "fst (add_error error ctx itm s) = Inl HTTPException \<and>
         stored (snd (add_error error ctx itm s)) (traceback_string (cwd s) error) =
           stored s (traceback_string (cwd s) error) @ [make_packet error ctx (now s)]"
  using raised_propagates [OF add_error_sound assms]
  by (simp add: stored_add_error)

lemma boom_chunks:
  "yield_code_chunks ''ValueError: boom\<newline>'' = [''```py\<newline>ValueError: boom\<newline>```'']"
  by (simp add: yield_code_chunks_def chunksize_def cbs_eq chunks_from_more chunks_from_done
      format_code_blocker slice_def)

lemma flaky_transport_used_up:
  "transport (snd (add_error boom None None flaky)) = []"
proof -
  have c: "cwd flaky = cwd fresh" by (simp add: flaky_def)
  have m: "most_recent flaky = None" "webhook_partial flaky" "transport flaky = [True, False]"
    by (simp_all add: flaky_def fresh_def new_manager_def)
  show ?thesis
    by (simp add: add_error_def c boom_traceback critical_section_def record_error_def Let_def m
        release_error_def ensure_webhook_def webhook_fetch_def webhook_send_def request_def
        and_then_def warn_unknown_guild_def boom_chunks split: option.splits)
qed

theorem transport_failure_propagates_entry_stays_witness:
  "transport flaky = [True, False] \<and>
   raised_between flaky (snd (add_error boom None None flaky)) \<and>
   fst (add_error boom None None flaky) = Inl HTTPException \<and>
   stored (snd (add_error boom None None flaky)) ''ValueError: boom\<newline>'' = [bare_packet]"
proof -
  have t: "transport flaky = [True, False]"
    by (simp add: flaky_def)
  have r: "raised_between flaky (snd (add_error boom None None flaky))"
    by (simp add: raised_between_def consumed_def flaky_transport_used_up t)
  have e: "stored flaky k = []" "cwd flaky = cwd fresh" "now flaky = 0" for k
    by (simp_all add: stored_def flaky_def fresh_def new_manager_def)
  from transport_failure_propagates_entry_stays [OF r] t r show ?thesis
    by (simp add: e boom_traceback bare_packet_def)
qed

subsection \<open>A call that finds the lock free\<close>

text \<open>
  The function \<^const>\<open>add_error\<close> and the step relation agree: from a system whose lock is
  free, the state that \<^const>\<open>add_error\<close> returns is reached by the call, followed, when the
  task has to wait, by the clock moving on by the length of its sleep and its wake-up.
\<close>

lemma add_error_is_a_run:
  assumes "sleeping c = None" and "waiting c = []"
  shows "\<exists>evs c'. run c evs c' \<and> st c' = snd (add_error error ctx itm (st c)) \<and>
                   sleeping c' = None \<and> waiting c' = []"
proof -
  let ?tb = "traceback_string (cwd (st c)) error"
  let ?p = "make_packet error ctx (now (st c))"
  let ?s1 = "record_error error ctx itm (st c)"
  let ?c1 = "call error ctx itm c"
  have c1: "?c1 = enter ?tb ?p (c\<lparr>st := ?s1\<rparr>)"
    using assms by (simp add: call_def Let_def)
  have first: "run c [Called error ?p] ?c1"
    using run_snoc [OF run_nil called [of c error ctx itm]] by simp
  have seq: "add_error error ctx itm (st c) = critical_section ?tb ?p ?s1"
    by (simp add: add_error_def)
  show ?thesis
  proof (cases "most_recent (st c)")
    case None
    then have "?c1 = deliver ?tb ?p (c\<lparr>st := ?s1\<rparr>)"
      by (simp add: c1 enter_def record_error_simps)
    then have "st ?c1 = snd (add_error error ctx itm (st c))" "sleeping ?c1 = None"
      "waiting ?c1 = []"
      using None assms
      by (simp_all add: seq critical_section_def deliver_def record_error_simps)
    with first show ?thesis by blast
  next
    case (Some prev)
    let ?d = "time ?p - prev"
    show ?thesis
    proof (cases "?d > cooldown (st c)")
      case True
      then have "?c1 = deliver ?tb ?p (c\<lparr>st := ?s1\<rparr>)"
        using Some by (simp add: c1 enter_def record_error_simps Let_def)
      then have "st ?c1 = snd (add_error error ctx itm (st c))" "sleeping ?c1 = None"
        "waiting ?c1 = []"
        using Some True assms
        by (simp_all add: seq critical_section_def deliver_def record_error_simps Let_def)
      with first show ?thesis by blast
    next
      case False
      let ?s2 = "?s1\<lparr>logged := logged ?s1 @ [Debug_waiting ?d]\<rparr>"
      let ?due = "now ?s1 + max 0 ?d"
      have e: "?c1 = c\<lparr>st := ?s2, sleeping := Some (?tb, ?p, ?due)\<rparr>"
        using Some False by (simp add: c1 enter_def record_error_simps Let_def)
      let ?c2 = "advance (max 0 ?d) ?c1"
      let ?c3 = "deliver ?tb ?p ?c2"
      have "step ?c1 (Tick (max 0 ?d)) ?c2" by (rule tick) simp
      with first have second: "run c [Called error ?p, Tick (max 0 ?d)] ?c2"
        using run_snoc by fastforce
      have sl: "sleeping ?c2 = Some (?tb, ?p, ?due)" and nw: "now (st ?c2) = ?due"
        by (simp_all add: e advance_def)
      have "step ?c2 Woken ?c3"
        using woken [OF sl] by (simp add: nw)
      with second have third: "run c [Called error ?p, Tick (max 0 ?d), Woken] ?c3"
        using run_snoc by fastforce
      have st2: "st ?c2 = sleep ?d ?s2"
        by (simp add: e advance_def sleep_def)
      have "st ?c3 = snd (add_error error ctx itm (st c))"
        using Some False
        by (simp add: seq critical_section_def Let_def deliver_def st2 record_error_simps)
      moreover have "sleeping ?c3 = None" "waiting ?c3 = []"
        using assms by (simp_all add: deliver_simps e advance_def)
      ultimately show ?thesis using third by blast
    qed
  qed
qed

end
